theory Spec2Isabelle
  imports Main
begin

section \<open>Exceptions\<close>

text \<open>
  Every exception the modelled code can raise is a value of one type. A function that
  can raise returns \<open>error + 'a\<close>, with \<open>Inl\<close> for the exception.
\<close>

datatype error =
    AssertionError
  | KeyError
  | IndexError
  | TypeError
  | RuntimeError
  | KeyboardInterrupt
  | BindError
  | ViewerNotFoundError
  | AnalysisError

section \<open>The Hugging Face data source (huggingface\_datasource.py)\<close>

text \<open>
  The \<open>indices\<close> argument of \<open>get_column_values\<close> is a slice or a collection of
  integers. A slice carries its three fields, each an integer or \<open>None\<close>;
  \<open>slice(None)\<close> is \<open>Slice None None None\<close>, and two slices are equal when
  their fields are.
\<close>

datatype indices = Slice "int option" "int option" "int option" | Indices "int list"

definition full_slice :: indices where
  "full_slice = Slice None None None"

text \<open>
  The values of an Arrow column: a struct scalar with named fields (audio, image and
  file columns) or a plain scalar. \<open>as_py\<close> of a field is a Python value.
\<close>

datatype py_value = PyNone | PyBytes string | PyStr string | PyInt int

datatype cell = Struct "(string \<times> py_value) list" | Scalar py_value

text \<open>The feature types that \<open>get_column_values\<close> tells apart by \<open>isinstance\<close>.\<close>

datatype feature =
    Value string
  | ClassLabel "string list"
  | Sequence feature int
  | Audio
  | Image
  | Translation
  | DictFeature "(string \<times> feature) list"
  | ListFeature "feature list"

record dataset =
  data :: "(string \<times> cell list) list"
  features :: "(string \<times> feature) list"

text \<open>\<open>table[column_name]\<close> and \<open>features[column_name]\<close>: a missing key raises.\<close>

definition getitem :: "(string \<times> 'a) list \<Rightarrow> string \<Rightarrow> error + 'a" where
  "getitem m k = (case map_of m k of None \<Rightarrow> Inl KeyError | Some v \<Rightarrow> Inr v)"

text \<open>
  Arrow's \<open>take\<close>: every index must lie in \<open>0 ..< length\<close>; an index out of
  bounds (a negative one too) raises. The model covers index collections of 64-bit
  integers with a known integer type; what Arrow does with an empty Python list or with
  an integer beyond 64 bits (it raises other exceptions) is not modelled.
\<close>

fun take_indices :: "cell list \<Rightarrow> int list \<Rightarrow> error + cell list" where
  "take_indices xs [] = Inr []"
| "take_indices xs (i # is) =
     (if 0 \<le> i \<and> i < int (length xs)
      then (case take_indices xs is of
              Inl e \<Rightarrow> Inl e
            | Inr ys \<Rightarrow> Inr (xs ! nat i # ys))
      else Inl IndexError)"

text \<open>\<open>value[name].as_py()\<close> on one cell.\<close>

definition field_as_py :: "cell \<Rightarrow> string \<Rightarrow> error + py_value" where
  "field_as_py c k =
     (case c of
        Scalar _ \<Rightarrow> Inl TypeError
      | Struct fs \<Rightarrow> getitem fs k)"

text \<open>A list comprehension whose body can raise stops at the first exception.\<close>

fun comprehension :: "('a \<Rightarrow> error + 'b) \<Rightarrow> 'a list \<Rightarrow> error + 'b list" where
  "comprehension f [] = Inr []"
| "comprehension f (x # xs) =
     (case f x of
        Inl e \<Rightarrow> Inl e
      | Inr y \<Rightarrow> (case comprehension f xs of Inl e \<Rightarrow> Inl e | Inr ys \<Rightarrow> Inr (y # ys)))"

text \<open>The element of an audio or image column: the path when there are no bytes.\<close>

definition bytes_or_path :: "cell \<Rightarrow> error + py_value" where
  "bytes_or_path c =
     (case field_as_py c ''bytes'' of
        Inl e \<Rightarrow> Inl e
      | Inr b \<Rightarrow> if b = PyNone then field_as_py c ''path'' else Inr b)"

text \<open>
  \<open>to_numpy\<close> of a column of plain values keeps the values in order. The conversion
  of the values themselves (an integer column with nulls becomes a column of floats) is
  not modelled.
\<close>

definition to_numpy :: "cell list \<Rightarrow> cell list" where
  "to_numpy xs = xs"

datatype column_values = ObjectArray "py_value list" | NativeArray "cell list"

text \<open>
  \<open>get_column_values\<close> has two parts. The first fetches the raw values of the
  column for the given indices; a slice other than \<open>slice(None)\<close> ends in
  \<open>assert False\<close>.
\<close>

definition raw_values_of :: "dataset \<Rightarrow> string \<Rightarrow> indices \<Rightarrow> error + cell list" where
  "raw_values_of ds column_name ixs =
     (case ixs of
        Slice a b c \<Rightarrow>
          if Slice a b c = full_slice then getitem (data ds) column_name
          else Inl AssertionError
      | Indices is \<Rightarrow>
          (case getitem (data ds) column_name of
             Inl e \<Rightarrow> Inl e
           | Inr col \<Rightarrow> take_indices col is))"

text \<open>The second part converts the raw values according to the column's feature.\<close>

definition convert :: "dataset \<Rightarrow> string \<Rightarrow> cell list \<Rightarrow> error + column_values" where
  "convert ds column_name raw_values =
     (case getitem (features ds) column_name of
        Inl e \<Rightarrow> Inl e
      | Inr feature \<Rightarrow>
          (case feature of
             Audio \<Rightarrow>
               (case comprehension bytes_or_path raw_values of
                  Inl e \<Rightarrow> Inl e | Inr vs \<Rightarrow> Inr (ObjectArray vs))
           | Image \<Rightarrow>
               (case comprehension bytes_or_path raw_values of
                  Inl e \<Rightarrow> Inl e | Inr vs \<Rightarrow> Inr (ObjectArray vs))
           | DictFeature _ \<Rightarrow>
               (case comprehension (\<lambda>v. field_as_py v ''bytes'') raw_values of
                  Inl e \<Rightarrow> Inl e | Inr vs \<Rightarrow> Inr (ObjectArray vs))
           | Sequence _ _ \<Rightarrow> Inr (NativeArray (to_numpy raw_values))
           | _ \<Rightarrow> Inr (NativeArray (to_numpy raw_values))))"

definition get_column_values :: "dataset \<Rightarrow> string \<Rightarrow> indices \<Rightarrow> error + column_values" where
  "get_column_values ds column_name ixs =
     (case raw_values_of ds column_name ixs of
        Inl e \<Rightarrow> Inl e
      | Inr raw_values \<Rightarrow> convert ds column_name raw_values)"

section \<open>Viewers and the registry of viewers (viewer.py)\<close>

subsection \<open>Arguments\<close>

text \<open>\<open>Union[int, Literal["auto"]]\<close>, \<open>Union[int, Literal["last"]]\<close> and
  \<open>Union[bool, Literal["auto"]]\<close>.\<close>

datatype port_arg = Auto | Port int

datatype close_arg = Last | ClosePort int

datatype flag = AutoFlag | Flag bool

text \<open>A dataset or folder is a path or a data frame (known by its identity).\<close>

datatype source = PathSource string | DataFrame nat

type_synonym column_type_mapping = "(string \<times> string) list"

type_synonym data_issue = string

text \<open>
  \<open>create_datasource\<close> lives outside the files at hand; the model keeps what it was
  called with, and \<open>ds_dtype\<close> is the \<open>dtype\<close> attribute read from the result.
\<close>

record data_source =
  ds_source :: source
  ds_dtype :: "column_type_mapping option"

definition create_datasource :: "source \<Rightarrow> column_type_mapping option \<Rightarrow> data_source" where
  "create_datasource src dt = \<lparr>ds_source = src, ds_dtype = dt\<rparr>"

fun is_pathtype :: "source \<Rightarrow> bool" where
  "is_pathtype (PathSource _) = True"
| "is_pathtype (DataFrame _) = False"

subsection \<open>The server\<close>

text \<open>
  Modelled from the spec: the class \<open>Server\<close> (renumics.spotlight.server) is not among
  the source files. A server has a host and a port (0 asks for any free port, resolved
  when the listener is bound), starts once and is never restarted, counts its connected
  clients and holds the settings the viewer passes to it. \<open>started\<close> records that
  \<open>start\<close> has succeeded, \<open>stop_calls\<close> counts the calls of \<open>stop\<close>, and
  \<open>refreshes\<close> counts the refresh messages sent to the clients.
\<close>

record server =
  server_host :: string
  server_port :: int
  started :: bool
  running :: bool
  stop_calls :: nat
  connected_frontends :: nat
  analyze_issues :: bool
  project_root :: "string option"
  datasource :: "data_source option"
  custom_issues :: "data_issue list"
  layout :: "nat option"
  filebrowsing_allowed :: bool
  refreshes :: nat

definition Server_init :: "string \<Rightarrow> int \<Rightarrow> server" where
  "Server_init h p =
     \<lparr>server_host = h, server_port = p, started = False, running = False, stop_calls = 0,
      connected_frontends = 0, analyze_issues = False, project_root = None,
      datasource = None, custom_issues = [], layout = None, filebrowsing_allowed = False,
      refreshes = 0\<rparr>"

text \<open>
  What a call meets outside the program: whether \<open>__main__\<close> has no \<open>__file__\<close>
  (an interactive session), the port the system hands out for port 0, the ports other
  processes hold, whether the wait for the clients to disconnect is interrupted from the
  keyboard, the working directory and the file system as far as it is asked.
\<close>

record env =
  in_interactive_session :: bool
  ephemeral_port :: int
  busy_ports :: "int list"
  interrupted :: bool
  cwd :: string
  absolute :: "string \<Rightarrow> string"
  is_dir :: "string \<Rightarrow> bool"
  parent :: "string \<Rightarrow> string"

text \<open>
  Modelled from the spec: \<open>start\<close> binds the listener, resolves port 0 to a free port
  and fails with \<open>BindError\<close> when the explicit port is held by another process or by
  a running server of this process. \<open>stop\<close> releases the port and can be repeated.
\<close>

definition Server_start :: "env \<Rightarrow> server list \<Rightarrow> server \<Rightarrow> error + server" where
  "Server_start e others s =
     (if server_port s = 0
      then Inr (s\<lparr>server_port := ephemeral_port e, started := True, running := True\<rparr>)
      else if server_port s \<in> set (busy_ports e)
            \<or> server_port s \<in> set (map server_port (filter running others))
      then Inl BindError
      else Inr (s\<lparr>started := True, running := True\<rparr>))"

definition Server_stop :: "server \<Rightarrow> server" where
  "Server_stop s = s\<lparr>running := False, stop_calls := Suc (stop_calls s)\<rparr>"

subsection \<open>Viewers\<close>

text \<open>
  A viewer holds a reference to its server, or \<open>None\<close>. Viewers and servers are
  objects: two viewers with equal fields are still two viewers, and the registry compares
  by identity. The world keeps every object created so far in a list, the object's
  position being its identity (so identities follow the order of creation), and the
  module's list \<open>_VIEWERS\<close> holds identities. What was printed and which browser
  windows were launched are kept as logs.
\<close>

record viewer =
  host :: string
  requested_port :: port_arg
  dataset_or_folder :: "source option"
  dtype :: "column_type_mapping option"
  allow_filebrowsing :: "bool option"
  server :: "nat option"

record world =
  viewer_objs :: "viewer list"
  server_objs :: "server list"
  VIEWERS :: "nat list"
  printed :: "(string \<times> int option) list"
  browser_launches :: "(string \<times> int) list"

definition empty_world :: world where
  "empty_world = \<lparr>viewer_objs = [], server_objs = [], VIEWERS = [], printed = [],
                   browser_launches = []\<rparr>"

definition Viewer_init :: "string \<Rightarrow> port_arg \<Rightarrow> viewer" where
  "Viewer_init h p =
     \<lparr>host = h, requested_port = p, dataset_or_folder = None, dtype = None,
      allow_filebrowsing = None, server = None\<rparr>"

definition upd_viewer :: "world \<Rightarrow> nat \<Rightarrow> (viewer \<Rightarrow> viewer) \<Rightarrow> world" where
  "upd_viewer w v f = w\<lparr>viewer_objs := (viewer_objs w)[v := f (viewer_objs w ! v)]\<rparr>"

definition upd_server :: "world \<Rightarrow> nat \<Rightarrow> (server \<Rightarrow> server) \<Rightarrow> world" where
  "upd_server w sid f = w\<lparr>server_objs := (server_objs w)[sid := f (server_objs w ! sid)]\<rparr>"

text \<open>The properties \<open>port\<close> and \<open>running\<close>.\<close>

definition Viewer_port :: "world \<Rightarrow> nat \<Rightarrow> int option" where
  "Viewer_port w self =
     (case server (viewer_objs w ! self) of
        None \<Rightarrow> None
      | Some sid \<Rightarrow> Some (server_port (server_objs w ! sid)))"

definition Viewer_running :: "world \<Rightarrow> nat \<Rightarrow> bool" where
  "Viewer_running w self =
     (case server (viewer_objs w ! self) of
        None \<Rightarrow> False
      | Some sid \<Rightarrow> running (server_objs w ! sid))"

text \<open>\<open>_init_server\<close>: create and start a server if the viewer has none, and register
  the viewer. An exception of \<open>start\<close> leaves the new server on the viewer.\<close>

definition Viewer_init_server :: "env \<Rightarrow> world \<Rightarrow> nat \<Rightarrow> world \<times> (error + unit)" where
  "Viewer_init_server e w self =
     (case server (viewer_objs w ! self) of
        Some _ \<Rightarrow> (w, Inr ())
      | None \<Rightarrow>
          (let port = (case requested_port (viewer_objs w ! self) of Auto \<Rightarrow> 0 | Port p \<Rightarrow> p);
               sid = length (server_objs w);
               s = Server_init (host (viewer_objs w ! self)) port;
               w1 = upd_viewer (w\<lparr>server_objs := server_objs w @ [s]\<rparr>) self
                      (\<lambda>v. v\<lparr>server := Some sid\<rparr>)
           in case Server_start e (server_objs w) s of
                Inl err \<Rightarrow> (w1, Inl err)
              | Inr s' \<Rightarrow>
                  (let w2 = upd_server w1 sid (\<lambda>_. s')
                   in (if self \<in> set (VIEWERS w2) then w2
                       else w2\<lparr>VIEWERS := VIEWERS w2 @ [self]\<rparr>, Inr ()))))"

text \<open>
  \<open>close\<close>. With \<open>wait\<close> the call first waits for the clients to disconnect; an
  interrupt from the keyboard closes the viewer without waiting and is raised again.
\<close>

function Viewer_close :: "env \<Rightarrow> world \<Rightarrow> nat \<Rightarrow> bool \<Rightarrow> world \<times> (error + unit)" where
  "Viewer_close e w self wait =
     (if self \<notin> set (VIEWERS w) then (w, Inr ())
      else case server (viewer_objs w ! self) of
        None \<Rightarrow> (w, Inr ())
      | Some sid \<Rightarrow>
          if wait \<and> interrupted e
          then (case Viewer_close e w self False of
                  (w', Inl err) \<Rightarrow> (w', Inl err)
                | (w', Inr _) \<Rightarrow> (w', Inl KeyboardInterrupt))
          else (upd_viewer
                  (upd_server (w\<lparr>VIEWERS := remove1 self (VIEWERS w)\<rparr>) sid Server_stop)
                  self (\<lambda>v. v\<lparr>server := None\<rparr>),
                Inr ()))"
  by pat_completeness auto
termination
  by (relation "measure (\<lambda>(e, w, self, wait). if wait then 1 else 0)") auto

declare Viewer_close.simps [simp del]

text \<open>\<open>open_browser\<close> and \<open>refresh\<close>.\<close>

definition Viewer_open_browser :: "world \<Rightarrow> nat \<Rightarrow> world" where
  "Viewer_open_browser w self =
     (case Viewer_port w self of
        None \<Rightarrow> w
      | Some p \<Rightarrow>
          if p = 0 then w
          else w\<lparr>browser_launches := browser_launches w @ [(host (viewer_objs w ! self), p)]\<rparr>)"

definition Viewer_refresh :: "world \<Rightarrow> nat \<Rightarrow> world" where
  "Viewer_refresh w self =
     (case server (viewer_objs w ! self) of
        None \<Rightarrow> w
      | Some sid \<Rightarrow> upd_server w sid (\<lambda>s. s\<lparr>refreshes := Suc (refreshes s)\<rparr>))"

record show_args =
  arg_dataset_or_folder :: "source option"
  arg_layout :: "nat option"
  arg_no_browser :: bool
  arg_allow_filebrowsing :: flag
  arg_wait :: flag
  arg_dtype :: "column_type_mapping option"
  arg_analyze :: "bool option"
  arg_issues :: "data_issue list option"

text \<open>The part of \<open>show\<close> that sets the project folder and the data source.\<close>

definition set_dataset :: "env \<Rightarrow> world \<Rightarrow> nat \<Rightarrow> nat \<Rightarrow> world" where
  "set_dataset e w self sid =
     (let v = viewer_objs w ! self;
          w1 = (case dataset_or_folder v of
                  Some (PathSource p) \<Rightarrow>
                    (let path = absolute e p
                     in if is_dir e path
                        then upd_server w sid
                               (\<lambda>s. s\<lparr>project_root := Some path, datasource := None\<rparr>)
                        else upd_server w sid
                               (\<lambda>s. s\<lparr>project_root := Some (parent e path),
                                      datasource :=
                                        Some (create_datasource (PathSource path) (dtype v))\<rparr>))
                | Some (DataFrame d) \<Rightarrow>
                    upd_server w sid
                      (\<lambda>s. s\<lparr>datasource := Some (create_datasource (DataFrame d) (dtype v))\<rparr>)
                | None \<Rightarrow> w)
      in Viewer_refresh w1 self)"

text \<open>
  \<open>show\<close> on a viewer, in the order of the method. First the viewer remembers the
  dataset (the working directory when it has none) and the types.
\<close>

definition remember_args :: "env \<Rightarrow> world \<Rightarrow> nat \<Rightarrow> show_args \<Rightarrow> world" where
  "remember_args e w self args =
     (let w1 = upd_viewer w self
                 (\<lambda>v. case arg_dataset_or_folder args of
                         Some d \<Rightarrow> v\<lparr>dataset_or_folder := Some d\<rparr>
                       | None \<Rightarrow>
                           (case dataset_or_folder v of
                              None \<Rightarrow> v\<lparr>dataset_or_folder := Some (PathSource (cwd e))\<rparr>
                            | Some _ \<Rightarrow> v))
      in upd_viewer w1 self
           (\<lambda>v. case arg_dtype args of Some t \<Rightarrow> v\<lparr>dtype := Some t\<rparr> | None \<Rightarrow> v))"

text \<open>
  Once there is a server \<open>sid\<close>, the settings are passed to it one after the other,
  the address is printed (in a script, or when waiting) and a browser is opened (unless
  told not to, or a client is connected already). Each step is a function of the world.
\<close>

definition apply_analyze :: "show_args \<Rightarrow> nat \<Rightarrow> world \<Rightarrow> world" where
  "apply_analyze args sid w =
     (case arg_analyze args of
        None \<Rightarrow> w
      | Some a \<Rightarrow> upd_server w sid (\<lambda>s. s\<lparr>analyze_issues := a\<rparr>))"

definition apply_dataset :: "env \<Rightarrow> show_args \<Rightarrow> nat \<Rightarrow> nat \<Rightarrow> world \<Rightarrow> world" where
  "apply_dataset e args self sid w =
     (if arg_dataset_or_folder args \<noteq> None \<or> arg_dtype args \<noteq> None
      then set_dataset e w self sid else w)"

definition apply_issues :: "show_args \<Rightarrow> nat \<Rightarrow> world \<Rightarrow> world" where
  "apply_issues args sid w =
     (case arg_issues args of
        None \<Rightarrow> w
      | Some is \<Rightarrow> upd_server w sid (\<lambda>s. s\<lparr>custom_issues := is\<rparr>))"

definition apply_layout :: "show_args \<Rightarrow> nat \<Rightarrow> world \<Rightarrow> world" where
  "apply_layout args sid w =
     (case arg_layout args of
        None \<Rightarrow> w
      | Some l \<Rightarrow> upd_server w sid (\<lambda>s. s\<lparr>layout := Some l\<rparr>))"

definition apply_filebrowsing :: "show_args \<Rightarrow> nat \<Rightarrow> nat \<Rightarrow> world \<Rightarrow> world" where
  "apply_filebrowsing args self sid w =
     (let w' = upd_viewer w self
                 (\<lambda>v. case arg_allow_filebrowsing args of
                         Flag b \<Rightarrow> v\<lparr>allow_filebrowsing := Some b\<rparr>
                       | AutoFlag \<Rightarrow>
                           (case allow_filebrowsing v of
                              None \<Rightarrow>
                                v\<lparr>allow_filebrowsing :=
                                    Some (case dataset_or_folder v of
                                            Some d \<Rightarrow> is_pathtype d
                                          | None \<Rightarrow> False)\<rparr>
                            | Some _ \<Rightarrow> v))
      in upd_server w' sid
           (\<lambda>s. s\<lparr>filebrowsing_allowed :=
                    (allow_filebrowsing (viewer_objs w' ! self) = Some True)\<rparr>))"

definition print_address :: "env \<Rightarrow> bool \<Rightarrow> nat \<Rightarrow> world \<Rightarrow> world" where
  "print_address e wait self w =
     (if \<not> in_interactive_session e \<or> wait
      then w\<lparr>printed := printed w @ [(host (viewer_objs w ! self), Viewer_port w self)]\<rparr>
      else w)"

definition launch_browser :: "show_args \<Rightarrow> nat \<Rightarrow> nat \<Rightarrow> world \<Rightarrow> world" where
  "launch_browser args self sid w =
     (if \<not> arg_no_browser args \<and> connected_frontends (server_objs w ! sid) = 0
      then Viewer_open_browser w self else w)"

definition configure :: "env \<Rightarrow> world \<Rightarrow> nat \<Rightarrow> nat \<Rightarrow> show_args \<Rightarrow> bool \<Rightarrow> world" where
  "configure e w self sid args wait =
     launch_browser args self sid
       (print_address e wait self
         (apply_filebrowsing args self sid
           (apply_layout args sid
             (apply_issues args sid
               (apply_dataset e args self sid
                 (apply_analyze args sid w))))))"

text \<open>
  The whole method: an exception of \<open>_init_server\<close> ends it, a viewer left without a
  server raises \<open>RuntimeError\<close>, \<open>wait = "auto"\<close> means waiting in a script only, and
  with \<open>wait\<close> the call ends in \<open>close(True)\<close>. The call of \<open>wait_for_startup\<close>
  blocks until the server runs and changes nothing in the world.
\<close>

definition Viewer_show :: "env \<Rightarrow> world \<Rightarrow> nat \<Rightarrow> show_args \<Rightarrow> world \<times> (error + unit)" where
  "Viewer_show e w self args =
     (case Viewer_init_server e (remember_args e w self args) self of
        (w3, Inl err) \<Rightarrow> (w3, Inl err)
      | (w3, Inr _) \<Rightarrow>
          (case server (viewer_objs w3 ! self) of
             None \<Rightarrow> (w3, Inl RuntimeError)
           | Some sid \<Rightarrow>
               (let wait = (case arg_wait args of
                              AutoFlag \<Rightarrow> \<not> in_interactive_session e
                            | Flag b \<Rightarrow> b);
                    w11 = configure e w3 self sid args wait
                in if wait then Viewer_close e w11 self True else (w11, Inr ()))))"

subsection \<open>The module's functions\<close>

definition viewers :: "world \<Rightarrow> nat list" where
  "viewers w = VIEWERS w"

text \<open>
  The loop of \<open>show\<close> that looks for a viewer on the given port. The loop variable is
  the variable \<open>viewer\<close> itself: each round binds it to the next registered viewer, and
  a round that finds the port leaves the loop.
\<close>

fun reuse_loop :: "world \<Rightarrow> int \<Rightarrow> nat list \<Rightarrow> nat option \<Rightarrow> nat option" where
  "reuse_loop w port [] viewer = viewer"
| "reuse_loop w port (x # xs) viewer =
     (if Viewer_port w x = Some port then Some x else reuse_loop w port xs (Some x))"

definition spotlight_show ::
    "env \<Rightarrow> world \<Rightarrow> string \<Rightarrow> port_arg \<Rightarrow> show_args \<Rightarrow> world \<times> (error + nat)" where
  "spotlight_show e w h port args =
     (let found = (case port of
                     Auto \<Rightarrow> None
                   | Port p \<Rightarrow> reuse_loop w p (VIEWERS w) None);
          w1 = (case found of
                  None \<Rightarrow> w\<lparr>viewer_objs := viewer_objs w @ [Viewer_init h port]\<rparr>
                | Some _ \<Rightarrow> w);
          v = (case found of None \<Rightarrow> length (viewer_objs w) | Some x \<Rightarrow> x)
      in case Viewer_show e w1 v args of
           (w2, Inl err) \<Rightarrow> (w2, Inl err)
         | (w2, Inr _) \<Rightarrow> (w2, Inr v))"

fun close_loop :: "env \<Rightarrow> world \<Rightarrow> int \<Rightarrow> nat list \<Rightarrow> world \<times> (error + unit)" where
  "close_loop e w port [] = (w, Inl ViewerNotFoundError)"
| "close_loop e w port (x # xs) =
     (if Viewer_port w x = Some port then Viewer_close e w x False
      else close_loop e w port xs)"

definition spotlight_close :: "env \<Rightarrow> world \<Rightarrow> close_arg \<Rightarrow> world \<times> (error + unit)" where
  "spotlight_close e w port =
     (case port of
        Last \<Rightarrow>
          (if VIEWERS w = [] then (w, Inl ViewerNotFoundError)
           else Viewer_close e w (last (VIEWERS w)) False)
      | ClosePort p \<Rightarrow> close_loop e w p (VIEWERS w))"

subsection \<open>The invariant of the registry\<close>

text \<open>
  A viewer is registered at most once, and a registered viewer exists and has a server
  that exists and has been started.
\<close>

definition has_started_server :: "world \<Rightarrow> nat \<Rightarrow> bool" where
  "has_started_server w v =
     (v < length (viewer_objs w) \<and>
      (case server (viewer_objs w ! v) of
         None \<Rightarrow> False
       | Some sid \<Rightarrow> sid < length (server_objs w) \<and> started (server_objs w ! sid)))"

definition registry_invariant :: "world \<Rightarrow> bool" where
  "registry_invariant w =
     (distinct (VIEWERS w) \<and> list_all (has_started_server w) (VIEWERS w))"

text \<open>What the invariant reads of a world.\<close>

definition registry_view :: "world \<Rightarrow> nat list \<times> nat option list \<times> bool list" where
  "registry_view w = (VIEWERS w, map server (viewer_objs w), map started (server_objs w))"

text \<open>
  The two worlds \<open>_init_server\<close> can leave when the viewer had no server: the new
  server \<open>fresh_server\<close> is put on the viewer (\<open>with_server\<close>), as it was
  created when \<open>start\<close> raised, and as \<open>start\<close> left it otherwise.
\<close>

definition fresh_server :: "world \<Rightarrow> nat \<Rightarrow> server" where
  "fresh_server w self =
     Server_init (host (viewer_objs w ! self))
       (case requested_port (viewer_objs w ! self) of Auto \<Rightarrow> 0 | Port p \<Rightarrow> p)"

definition with_server :: "world \<Rightarrow> nat \<Rightarrow> server \<Rightarrow> world" where
  "with_server w self s =
     w\<lparr>server_objs := server_objs w @ [s],
       viewer_objs := (viewer_objs w)
         [self := (viewer_objs w ! self)\<lparr>server := Some (length (server_objs w))\<rparr>]\<rparr>"

text \<open>
  The spec's reading of \<open>close("last")\<close> speaks of the most recently created viewer
  that is still open. Identities follow the order of creation, so among the registered
  viewers this is the greatest identity.
\<close>

definition most_recently_created :: "world \<Rightarrow> nat" where
  "most_recently_created w = fold max (VIEWERS w) 0"

section \<open>The application object and the analysis of issues (backend/types.py)\<close>

text \<open>The message \<open>IssuesUpdatedMessage()\<close>: its \<open>data\<close> is \<open>None\<close>.\<close>

record message =
  msg_type :: string
  msg_data :: "data_issue list option"

definition IssuesUpdatedMessage :: message where
  "IssuesUpdatedMessage = \<lparr>msg_type = ''issuesUpdated'', msg_data = None\<rparr>"

text \<open>
  How \<open>future.result()\<close> ends once the future is done: with \<open>CancelledError\<close>, with
  the value the task returned, or with the exception the task raised.
\<close>

datatype outcome = Cancelled | Returned "data_issue list" | Raised error

datatype task_state = Pending | Running | Done outcome

text \<open>
  Modelled from the spec: the class \<open>TaskManager\<close>
  (renumics.spotlight.backend.tasks.task\_manager) is not among the source files. A task
  has a name, the arguments of its function and a state. \<open>create_task\<close> first cancels
  the tasks of the same name that have not ended: a task that has not begun to execute
  is cancelled, for one that is executing the cancellation is ignored. The new task is
  pending. Tasks that have ended stay in the list, so that a task is known by its
  position.
\<close>

record task =
  task_name :: string
  task_args :: "data_source \<times> column_type_mapping option"
  task_state :: task_state

definition cancel :: "string \<Rightarrow> task \<Rightarrow> task" where
  "cancel name t =
     (if task_name t = name \<and> task_state t = Pending then t\<lparr>task_state := Done Cancelled\<rparr>
      else t)"

definition create_task ::
    "task list \<Rightarrow> data_source \<times> column_type_mapping option \<Rightarrow> string \<Rightarrow> task list" where
  "create_task tasks args name =
     map (cancel name) tasks @ [\<lparr>task_name = name, task_args = args, task_state = Pending\<rparr>]"

text \<open>
  The application object, as far as \<open>_update_issues\<close> touches it. The websocket
  manager is \<open>None\<close> until one is assigned; a manager is known by the messages it has
  broadcast. \<open>callback_errors\<close> collects the exceptions that leave a completion
  callback.
\<close>

record app =
  app_data_source :: "data_source option"
  issues :: "data_issue list"
  websocket_manager :: "message list option"
  task_manager :: "task list"
  callback_errors :: "error list"

definition SpotlightApp_init :: app where
  "SpotlightApp_init =
     \<lparr>app_data_source = None, issues = [], websocket_manager = None, task_manager = [],
      callback_errors = []\<rparr>"

text \<open>\<open>if self.websocket_manager: self.websocket_manager.broadcast(message)\<close>\<close>

definition broadcast :: "app \<Rightarrow> message \<Rightarrow> app" where
  "broadcast a m =
     (case websocket_manager a of
        None \<Rightarrow> a
      | Some sent \<Rightarrow> a\<lparr>websocket_manager := Some (sent @ [m])\<rparr>)"

text \<open>The callback \<open>_on_issues_ready\<close>, called with the future of a task that is done.\<close>

definition on_issues_ready :: "app \<Rightarrow> outcome \<Rightarrow> app \<times> (error + unit)" where
  "on_issues_ready a result =
     (case result of
        Cancelled \<Rightarrow> (a, Inr ())
      | Raised err \<Rightarrow> (a, Inl err)
      | Returned found \<Rightarrow> (broadcast (a\<lparr>issues := found\<rparr>) IssuesUpdatedMessage, Inr ()))"

text \<open>
  \<open>_update_issues\<close> and the setter of \<open>data_source\<close>. Every task is created with
  \<open>find_issues\<close> as its function and \<open>_on_issues_ready\<close> as its callback. The
  callback of a task that \<open>create_task\<close> cancels runs with \<open>CancelledError\<close> and
  changes nothing.
\<close>

definition update_issues :: "app \<Rightarrow> app" where
  "update_issues a =
     (let table = app_data_source a;
          a1 = broadcast (a\<lparr>issues := []\<rparr>) IssuesUpdatedMessage
      in case table of
           None \<Rightarrow> a1
         | Some t \<Rightarrow>
             a1\<lparr>task_manager := create_task (task_manager a1) (t, ds_dtype t) ''update_issues''\<rparr>)"

definition set_data_source :: "app \<Rightarrow> data_source option \<Rightarrow> app" where
  "set_data_source a new_data_source = update_issues (a\<lparr>app_data_source := new_data_source\<rparr>)"

text \<open>
  What happens to an application over time: the data source is assigned, a worker
  begins to execute a pending task, an executing task completes. \<open>find_issues\<close> is
  outside the files at hand and is a parameter; it returns the issues or raises. When a
  task completes, its callback runs with the outcome.
\<close>

datatype event = SetDataSource "data_source option" | Begin nat | Complete nat

type_synonym analysis = "data_source \<Rightarrow> column_type_mapping option \<Rightarrow> error + data_issue list"

definition run_task :: "analysis \<Rightarrow> task \<Rightarrow> outcome" where
  "run_task find_issues t =
     (case find_issues (fst (task_args t)) (snd (task_args t)) of
        Inl err \<Rightarrow> Raised err
      | Inr found \<Rightarrow> Returned found)"

definition set_task_state :: "app \<Rightarrow> nat \<Rightarrow> task_state \<Rightarrow> app" where
  "set_task_state a i st =
     a\<lparr>task_manager := (task_manager a)[i := (task_manager a ! i)\<lparr>task_state := st\<rparr>]\<rparr>"

fun step :: "analysis \<Rightarrow> app \<Rightarrow> event \<Rightarrow> app" where
  "step find_issues a (SetDataSource d) = set_data_source a d"
| "step find_issues a (Begin i) =
     (if i < length (task_manager a) \<and> task_state (task_manager a ! i) = Pending
      then set_task_state a i Running else a)"
| "step find_issues a (Complete i) =
     (if i < length (task_manager a) \<and> task_state (task_manager a ! i) = Running
      then (let result = run_task find_issues (task_manager a ! i)
            in case on_issues_ready (set_task_state a i (Done result)) result of
                 (a', Inl err) \<Rightarrow> a'\<lparr>callback_errors := callback_errors a' @ [err]\<rparr>
               | (a', Inr _) \<Rightarrow> a')
      else a)"

definition run :: "analysis \<Rightarrow> app \<Rightarrow> event list \<Rightarrow> app" where
  "run find_issues a evs = foldl (step find_issues) a evs"

subsection \<open>Runs in which a task is superseded only while it is pending\<close>

text \<open>
  A task is done once its future is: it was cancelled, it returned or it raised. A task
  is unfinished as long as it is pending or executing.
\<close>

definition is_done :: "task \<Rightarrow> bool" where
  "is_done t = (case task_state t of Done _ \<Rightarrow> True | _ \<Rightarrow> False)"

definition executing :: "app \<Rightarrow> bool" where
  "executing a = list_ex (\<lambda>t. task_state t = Running) (task_manager a)"

definition unfinished :: "app \<Rightarrow> bool" where
  "unfinished a = list_ex (\<lambda>t. \<not> is_done t) (task_manager a)"

text \<open>
  An assignment supersedes the tasks created before it. \<open>create_task\<close> cancels those
  that are pending, cannot cancel one that executes, and is not called at all when the
  data source is cleared. A run is orderly when every task that is superseded is
  cancelled thereby: no data source is assigned while a task executes, and the data
  source is not cleared while a task is unfinished.
\<close>

fun in_order :: "app \<Rightarrow> event \<Rightarrow> bool" where
  "in_order a (SetDataSource (Some d)) = (\<not> executing a)"
| "in_order a (SetDataSource None) = (\<not> unfinished a)"
| "in_order a (Begin i) = True"
| "in_order a (Complete i) = True"

fun orderly :: "analysis \<Rightarrow> app \<Rightarrow> event list \<Rightarrow> bool" where
  "orderly find_issues a [] = True"
| "orderly find_issues a (ev # evs) =
     (in_order a ev \<and> orderly find_issues (step find_issues a ev) evs)"

text \<open>
  What orderly runs keep: the tasks are those of \<open>_update_issues\<close>, all but the last
  are done, and while the last is unfinished the issues are empty and the task was
  created for the current data source and its \<open>dtype\<close>.
\<close>

definition single_flight :: "app \<Rightarrow> bool" where
  "single_flight a =
     (list_all (\<lambda>t. task_name t = ''update_issues'') (task_manager a) \<and>
      list_all is_done (butlast (task_manager a)) \<and>
      (task_manager a = [] \<or> is_done (last (task_manager a)) \<or>
       (issues a = [] \<and>
        app_data_source a = Some (fst (task_args (last (task_manager a)))) \<and>
        snd (task_args (last (task_manager a)))
          = ds_dtype (fst (task_args (last (task_manager a)))))))"

section \<open>Examples\<close>

text \<open>Concrete environments, arguments and data sources for the examples below.\<close>

definition env0 :: env where
  "env0 = \<lparr>in_interactive_session = True, ephemeral_port = 49152, busy_ports = [],
            interrupted = False, cwd = ''/home'', absolute = (\<lambda>p. p),
            is_dir = (\<lambda>p. p = ''/home''), parent = (\<lambda>p. ''/home'')\<rparr>"

definition env1 :: env where
  "env1 = env0\<lparr>ephemeral_port := 49153\<rparr>"

definition env_interrupt :: env where
  "env_interrupt = env0\<lparr>interrupted := True\<rparr>"

definition args0 :: show_args where
  "args0 = \<lparr>arg_dataset_or_folder = None, arg_layout = None, arg_no_browser = True,
             arg_allow_filebrowsing = AutoFlag, arg_wait = Flag False, arg_dtype = None,
             arg_analyze = None, arg_issues = None\<rparr>"

definition frame1 :: data_source where
  "frame1 = \<lparr>ds_source = DataFrame 1, ds_dtype = None\<rparr>"

definition frame2 :: data_source where
  "frame2 = \<lparr>ds_source = DataFrame 2, ds_dtype = None\<rparr>"

definition file1 :: data_source where
  "file1 = \<lparr>ds_source = PathSource ''/home/data.h5'', ds_dtype = None\<rparr>"

definition find_issues0 :: analysis where
  "find_issues0 d t =
     (case ds_source d of
        DataFrame n \<Rightarrow> Inr [if n = 1 then ''issue of frame 1'' else ''issue of another frame'']
      | PathSource p \<Rightarrow> Inl AnalysisError)"

text \<open>
  Worlds reached from the empty one: one viewer opened on port 5001; two viewers opened
  on free ports; and the latter after the first viewer was closed and shown again.
\<close>

definition one_viewer :: world where
  "one_viewer = fst (spotlight_show env0 empty_world ''127.0.0.1'' (Port 5001) args0)"

definition two_viewers :: world where
  "two_viewers =
     fst (spotlight_show env1
            (fst (spotlight_show env0 empty_world ''127.0.0.1'' Auto args0))
            ''127.0.0.1'' Auto args0)"

definition reshown :: world where
  "reshown = fst (Viewer_show env0 (fst (Viewer_close env0 two_viewers 0 False)) 0 args0)"

text \<open>
  Two viewers made with the constructor, the second shown before the first.
\<close>

definition shown_in_reverse :: world where
  "shown_in_reverse =
     fst (Viewer_show env1
            (fst (Viewer_show env0
                    (empty_world\<lparr>viewer_objs :=
                        [Viewer_init ''127.0.0.1'' Auto, Viewer_init ''127.0.0.1'' Auto]\<rparr>)
                    1 args0))
            0 args0)"

text \<open>An application with a websocket manager that has broadcast nothing yet.\<close>

definition connected_app :: app where
  "connected_app = SpotlightApp_init\<lparr>websocket_manager := Some []\<rparr>"

section \<open>Properties of the Hugging Face data source\<close>

lemma getitem_not_assertion: "getitem m k = Inl e \<Longrightarrow> e \<noteq> AssertionError"
  by (auto simp: getitem_def split: option.splits)

lemma take_indices_not_assertion: "take_indices xs is = Inl e \<Longrightarrow> e \<noteq> AssertionError"
  by (induction "is") (auto split: sum.splits if_splits)

lemma field_as_py_not_assertion: "field_as_py c k = Inl e \<Longrightarrow> e \<noteq> AssertionError"
  by (auto simp: field_as_py_def dest: getitem_not_assertion split: cell.splits)

lemma bytes_or_path_not_assertion: "bytes_or_path c = Inl e \<Longrightarrow> e \<noteq> AssertionError"
  by (auto simp: bytes_or_path_def dest: field_as_py_not_assertion split: sum.splits if_splits)

lemma comprehension_not_assertion:
  "(\<And>x e. f x = Inl e \<Longrightarrow> e \<noteq> AssertionError) \<Longrightarrow> comprehension f xs = Inl e
     \<Longrightarrow> e \<noteq> AssertionError"
  by (induction xs) (auto split: sum.splits)

lemma comprehension_bytes_or_path:
  "comprehension bytes_or_path xs \<noteq> Inl AssertionError"
  using comprehension_not_assertion [of bytes_or_path xs AssertionError]
    bytes_or_path_not_assertion by blast

lemma comprehension_bytes_field:
  "comprehension (\<lambda>v. field_as_py v ''bytes'') xs \<noteq> Inl AssertionError"
  using comprehension_not_assertion [of "\<lambda>v. field_as_py v ''bytes''" xs AssertionError]
    field_as_py_not_assertion by blast

lemma convert_not_assertion: "convert ds column_name raw_values = Inl e \<Longrightarrow> e \<noteq> AssertionError"
  unfolding convert_def
  using comprehension_bytes_or_path [of raw_values] comprehension_bytes_field [of raw_values]
  by (auto split: sum.splits feature.splits dest: getitem_not_assertion)

lemma raw_values_of_assertion:
  "raw_values_of ds column_name ixs = Inl AssertionError
     \<longleftrightarrow> (\<exists>a b c. ixs = Slice a b c \<and> ixs \<noteq> full_slice)"
  by (auto simp: raw_values_of_def split: indices.splits sum.splits
      dest: getitem_not_assertion take_indices_not_assertion)

text \<open>
  C10. A slice other than the full slice makes \<open>get_column_values\<close> fail its
  assertion, whatever the data source and the column; the full slice and the index
  collections never reach the assertion.
\<close>

theorem get_column_values_slice_assertion:
  "get_column_values ds column_name ixs = Inl AssertionError
     \<longleftrightarrow> (\<exists>a b c. ixs = Slice a b c \<and> ixs \<noteq> full_slice)"
proof -
  have "get_column_values ds column_name ixs = Inl AssertionError
          \<longleftrightarrow> raw_values_of ds column_name ixs = Inl AssertionError"
    by (auto simp: get_column_values_def split: sum.splits dest: convert_not_assertion)
  then show ?thesis
    by (simp only: raw_values_of_assertion)
qed

theorem get_column_values_slice_assertion_witness:
  "get_column_values \<lparr>data = [(''label'', [Scalar (PyInt 1), Scalar (PyInt 2)])],
                        features = [(''label'', Value ''int64'')]\<rparr>
     ''label'' (Slice (Some 0) (Some 1) None) = Inl AssertionError
   \<and> get_column_values \<lparr>data = [(''label'', [Scalar (PyInt 1), Scalar (PyInt 2)])],
                        features = [(''label'', Value ''int64'')]\<rparr>
     ''label'' (Indices [1]) \<noteq> Inl AssertionError"
  using get_column_values_slice_assertion
          [of "\<lparr>data = [(''label'', [Scalar (PyInt 1), Scalar (PyInt 2)])],
                  features = [(''label'', Value ''int64'')]\<rparr>"
              "''label''" "Slice (Some 0) (Some 1) None"]
        get_column_values_slice_assertion
          [of "\<lparr>data = [(''label'', [Scalar (PyInt 1), Scalar (PyInt 2)])],
                  features = [(''label'', Value ''int64'')]\<rparr>"
              "''label''" "Indices [1]"]
  by (simp add: full_slice_def)

section \<open>Properties of the viewers and the registry\<close>

lemma map_update_same:
  "f (g (xs ! i)) = f (xs ! i) \<Longrightarrow> map f (xs[i := g (xs ! i)]) = map f xs"
  by (cases "i < length xs") (simp_all add: map_update list_update_same_conv list_update_beyond)

lemma registry_view_upd_server:
  "started (f (server_objs w ! sid)) = started (server_objs w ! sid)
     \<Longrightarrow> registry_view (upd_server w sid f) = registry_view w"
  by (simp add: registry_view_def upd_server_def map_update_same)

lemma registry_view_upd_viewer:
  "server (f (viewer_objs w ! v)) = server (viewer_objs w ! v)
     \<Longrightarrow> registry_view (upd_viewer w v f) = registry_view w"
  by (simp add: registry_view_def upd_viewer_def map_update_same)

lemma has_started_server_view:
  "has_started_server w v =
     (v < length (fst (snd (registry_view w))) \<and>
      (case fst (snd (registry_view w)) ! v of
         None \<Rightarrow> False
       | Some sid \<Rightarrow> sid < length (snd (snd (registry_view w)))
            \<and> snd (snd (registry_view w)) ! sid))"
  by (auto simp: has_started_server_def registry_view_def split: option.splits)

lemma registry_invariant_view:
  "registry_view w' = registry_view w \<Longrightarrow> registry_invariant w' = registry_invariant w"
proof -
  assume eq: "registry_view w' = registry_view w"
  then have "VIEWERS w' = VIEWERS w"
    by (simp add: registry_view_def)
  moreover have "has_started_server w' = has_started_server w"
    by (rule ext) (simp only: has_started_server_view eq)
  ultimately show ?thesis
    by (simp only: registry_invariant_def)
qed

lemma Viewer_close_nowait:
  "Viewer_close e w self False =
     (if self \<notin> set (VIEWERS w) then (w, Inr ())
      else case server (viewer_objs w ! self) of
        None \<Rightarrow> (w, Inr ())
      | Some sid \<Rightarrow>
          (upd_viewer
             (upd_server (w\<lparr>VIEWERS := remove1 self (VIEWERS w)\<rparr>) sid Server_stop)
             self (\<lambda>v. v\<lparr>server := None\<rparr>),
           Inr ()))"
  by (subst Viewer_close.simps) (simp split: option.splits)

lemma Viewer_close_world:
  "fst (Viewer_close e w self wait) = fst (Viewer_close e w self False)"
  by (subst Viewer_close.simps) (auto simp: Viewer_close_nowait split: option.splits)

lemma Viewer_close_result:
  "snd (Viewer_close e w self wait) =
     (if self \<in> set (VIEWERS w) \<and> server (viewer_objs w ! self) \<noteq> None \<and> wait \<and> interrupted e
      then Inl KeyboardInterrupt else Inr ())"
  by (subst Viewer_close.simps) (auto simp: Viewer_close_nowait split: option.splits)

lemma has_started_server_closed:
  assumes "has_started_server w v" "v \<noteq> self"
  shows "has_started_server
           (upd_viewer (upd_server (w\<lparr>VIEWERS := vs\<rparr>) sid Server_stop) self
              (\<lambda>v. v\<lparr>server := None\<rparr>)) v"
proof -
  have "started (((server_objs w)[sid := Server_stop (server_objs w ! sid)]) ! s)
          = started (server_objs w ! s)" for s
    by (cases "sid < length (server_objs w)")
       (simp_all add: nth_list_update Server_stop_def list_update_beyond)
  with assms show ?thesis
    by (auto simp: has_started_server_def upd_viewer_def upd_server_def split: option.splits)
qed

lemma VIEWERS_closed:
  "VIEWERS (upd_viewer (upd_server (w\<lparr>VIEWERS := vs\<rparr>) sid f) self g) = vs"
  by (simp add: upd_viewer_def upd_server_def)

lemma registry_invariant_closed:
  assumes "registry_invariant w"
  shows "registry_invariant
           (upd_viewer (upd_server (w\<lparr>VIEWERS := remove1 self (VIEWERS w)\<rparr>) sid Server_stop)
              self (\<lambda>v. v\<lparr>server := None\<rparr>))"
proof -
  from assms have d: "distinct (VIEWERS w)"
    and h: "\<And>x. x \<in> set (VIEWERS w) \<Longrightarrow> has_started_server w x"
    by (simp_all add: registry_invariant_def list_all_iff)
  have "has_started_server
          (upd_viewer (upd_server (w\<lparr>VIEWERS := remove1 self (VIEWERS w)\<rparr>) sid Server_stop)
             self (\<lambda>v. v\<lparr>server := None\<rparr>)) x"
    if "x \<in> set (remove1 self (VIEWERS w))" for x
  proof -
    from that d have "x \<in> set (VIEWERS w)" "x \<noteq> self"
      by auto
    then show ?thesis
      by (simp add: h has_started_server_closed)
  qed
  with d show ?thesis
    by (simp add: registry_invariant_def list_all_iff VIEWERS_closed)
qed

lemma registry_invariant_Viewer_close:
  assumes "registry_invariant w"
  shows "registry_invariant (fst (Viewer_close e w self wait))"
proof -
  have "registry_invariant (fst (Viewer_close e w self False))"
    using assms
    by (simp add: Viewer_close_nowait registry_invariant_closed split: option.splits)
  then show ?thesis
    by (subst Viewer_close_world)
qed

lemma Viewer_close_unregisters:
  assumes "distinct (VIEWERS w)"
  shows "self \<notin> set (VIEWERS (fst (Viewer_close e w self wait))) \<or>
         server (viewer_objs w ! self) = None"
proof -
  have "self \<notin> set (VIEWERS (fst (Viewer_close e w self False))) \<or>
         server (viewer_objs w ! self) = None"
    using assms
    by (auto simp: Viewer_close_nowait VIEWERS_closed split: option.splits)
  then show ?thesis
    by (subst Viewer_close_world)
qed

lemma registry_view_Viewer_refresh [simp]:
  "registry_view (Viewer_refresh w self) = registry_view w"
  by (simp add: Viewer_refresh_def registry_view_upd_server split: option.splits)

lemma registry_view_set_dataset [simp]:
  "registry_view (set_dataset e w self sid) = registry_view w"
  by (simp add: set_dataset_def Let_def registry_view_upd_server
      split: option.splits source.splits)

lemma registry_view_printed [simp]:
  "registry_view (w\<lparr>printed := p\<rparr>) = registry_view w"
  by (simp add: registry_view_def)

lemma registry_view_Viewer_open_browser [simp]:
  "registry_view (Viewer_open_browser w self) = registry_view w"
  by (simp add: Viewer_open_browser_def registry_view_def split: option.splits)

lemma registry_view_remember_args [simp]:
  "registry_view (remember_args e w self args) = registry_view w"
  by (simp add: remember_args_def Let_def registry_view_upd_viewer split: option.splits)

lemma registry_view_apply_analyze [simp]:
  "registry_view (apply_analyze args sid w) = registry_view w"
  by (simp add: apply_analyze_def registry_view_upd_server split: option.splits)

lemma registry_view_apply_dataset [simp]:
  "registry_view (apply_dataset e args self sid w) = registry_view w"
  by (simp add: apply_dataset_def)

lemma registry_view_apply_issues [simp]:
  "registry_view (apply_issues args sid w) = registry_view w"
  by (simp add: apply_issues_def registry_view_upd_server split: option.splits)

lemma registry_view_apply_layout [simp]:
  "registry_view (apply_layout args sid w) = registry_view w"
  by (simp add: apply_layout_def registry_view_upd_server split: option.splits)

lemma registry_view_apply_filebrowsing [simp]:
  "registry_view (apply_filebrowsing args self sid w) = registry_view w"
  by (simp add: apply_filebrowsing_def Let_def registry_view_upd_server
      registry_view_upd_viewer split: option.splits flag.splits)

lemma registry_view_print_address [simp]:
  "registry_view (print_address e wait self w) = registry_view w"
  by (simp add: print_address_def)

lemma registry_view_launch_browser [simp]:
  "registry_view (launch_browser args self sid w) = registry_view w"
  by (simp add: launch_browser_def)

lemma registry_view_configure [simp]:
  "registry_view (configure e w self sid args wait) = registry_view w"
  by (simp add: configure_def)

lemma has_started_server_extend:
  assumes "has_started_server w v" "v \<noteq> self"
    "viewer_objs w' = (viewer_objs w)[self := x]"
    "server_objs w' = server_objs w @ [s]"
  shows "has_started_server w' v"
  using assms
  by (auto simp: has_started_server_def nth_append split: option.splits)

lemma Server_start_started: "Server_start e others s = Inr s' \<Longrightarrow> started s'"
  by (auto simp: Server_start_def split: if_splits)

lemma Viewer_init_server_has:
  "server (viewer_objs w ! self) = Some sid \<Longrightarrow> Viewer_init_server e w self = (w, Inr ())"
  by (simp add: Viewer_init_server_def)

lemma Viewer_init_server_fail:
  "server (viewer_objs w ! self) = None \<Longrightarrow>
   Server_start e (server_objs w) (fresh_server w self) = Inl err \<Longrightarrow>
   Viewer_init_server e w self = (with_server w self (fresh_server w self), Inl err)"
  by (simp add: Viewer_init_server_def Let_def fresh_server_def with_server_def upd_viewer_def)

lemma Viewer_init_server_ok:
  "server (viewer_objs w ! self) = None \<Longrightarrow>
   Server_start e (server_objs w) (fresh_server w self) = Inr s' \<Longrightarrow>
   Viewer_init_server e w self =
     ((with_server w self s')\<lparr>VIEWERS := if self \<in> set (VIEWERS w) then VIEWERS w else VIEWERS w @ [self]\<rparr>, Inr ())"
  by (simp add: Viewer_init_server_def Let_def fresh_server_def with_server_def upd_viewer_def
      upd_server_def)

lemma has_started_server_VIEWERS [simp]:
  "has_started_server (w\<lparr>VIEWERS := vs\<rparr>) x = has_started_server w x"
  by (simp add: has_started_server_def split: option.splits)

lemma has_started_server_with_server_other:
  "has_started_server w v \<Longrightarrow> v \<noteq> self \<Longrightarrow> has_started_server (with_server w self s) v"
  by (rule has_started_server_extend [of w v self]) (simp_all add: with_server_def)

lemma has_started_server_with_server_self:
  "self < length (viewer_objs w) \<Longrightarrow> started s \<Longrightarrow> has_started_server (with_server w self s) self"
  by (simp add: has_started_server_def with_server_def)

lemma VIEWERS_with_server [simp]: "VIEWERS (with_server w self s) = VIEWERS w"
  by (simp add: with_server_def)

lemma registry_invariant_Viewer_init_server:
  assumes inv: "registry_invariant w" and self: "self < length (viewer_objs w)"
  shows "registry_invariant (fst (Viewer_init_server e w self))"
proof (cases "server (viewer_objs w ! self)")
  case (Some sid)
  with inv show ?thesis
    by (simp add: Viewer_init_server_has)
next
  case None
  from inv have d: "distinct (VIEWERS w)"
    and h: "\<And>x. x \<in> set (VIEWERS w) \<Longrightarrow> has_started_server w x"
    by (simp_all add: registry_invariant_def list_all_iff)
  from None h [of self] have new: "self \<notin> set (VIEWERS w)"
    by (auto simp: has_started_server_def)
  have others: "has_started_server (with_server w self s) x" if "x \<in> set (VIEWERS w)" for x s
    using that new h [of x] by (intro has_started_server_with_server_other) auto
  show ?thesis
  proof (cases "Server_start e (server_objs w) (fresh_server w self)")
    case (Inl err)
    with d others show ?thesis
      by (simp add: Viewer_init_server_fail [OF None Inl] registry_invariant_def list_all_iff)
  next
    case (Inr s')
    have "has_started_server (with_server w self s') self"
      using self Server_start_started [OF Inr] by (rule has_started_server_with_server_self)
    with d new others show ?thesis
      by (simp add: Viewer_init_server_ok [OF None Inr] registry_invariant_def list_all_iff)
  qed
qed

lemma length_viewer_objs_view:
  "registry_view w' = registry_view w \<Longrightarrow> length (viewer_objs w') = length (viewer_objs w)"
  by (auto simp: registry_view_def dest: map_eq_imp_length_eq)

lemma registry_invariant_Viewer_show:
  assumes inv: "registry_invariant w" and self: "self < length (viewer_objs w)"
  shows "registry_invariant (fst (Viewer_show e w self args))"
proof -
  define w2 where "w2 = remember_args e w self args"
  have v2: "registry_view w2 = registry_view w"
    by (simp add: w2_def)
  have "registry_invariant w2" "self < length (viewer_objs w2)"
    using inv self registry_invariant_view [OF v2] length_viewer_objs_view [OF v2]
    by simp_all
  then have 3: "registry_invariant (fst (Viewer_init_server e w2 self))"
    by (rule registry_invariant_Viewer_init_server)
  obtain w3 r where r: "Viewer_init_server e w2 self = (w3, r)"
    by (cases "Viewer_init_server e w2 self")
  with 3 have inv3: "registry_invariant w3"
    by simp
  have c: "registry_invariant (configure e w3 self sid args wait)" for sid wait
    using inv3 registry_invariant_view [of "configure e w3 self sid args wait" w3]
    by simp
  show ?thesis
  proof (cases r)
    case (Inl err)
    with inv3 show ?thesis
      by (simp add: Viewer_show_def w2_def [symmetric] r)
  next
    case (Inr u)
    show ?thesis
    proof (cases "server (viewer_objs w3 ! self)")
      case None
      with inv3 Inr show ?thesis
        by (simp add: Viewer_show_def w2_def [symmetric] r)
    next
      case (Some sid)
      with Inr c [of sid] show ?thesis
        by (simp add: Viewer_show_def w2_def [symmetric] r Let_def
            registry_invariant_Viewer_close)
    qed
  qed
qed

lemma registry_invariant_empty_world: "registry_invariant empty_world"
  by (simp add: registry_invariant_def empty_world_def)

lemma registry_invariant_iff:
  "registry_invariant w \<longleftrightarrow>
     distinct (VIEWERS w) \<and>
     (\<forall>v \<in> set (VIEWERS w). v < length (viewer_objs w) \<and>
        (\<exists>sid. server (viewer_objs w ! v) = Some sid \<and> sid < length (server_objs w)
           \<and> started (server_objs w ! sid)))"
  by (auto simp: registry_invariant_def has_started_server_def list_all_iff
      split: option.splits)

lemma registered_has_server:
  assumes "registry_invariant w" "self \<in> set (VIEWERS w)"
  obtains sid where "server (viewer_objs w ! self) = Some sid" "sid < length (server_objs w)"
    "self < length (viewer_objs w)"
  using assms unfolding registry_invariant_iff by blast

lemma Viewer_close_unregistered:
  "self \<notin> set (VIEWERS w) \<Longrightarrow> Viewer_close e w self wait = (w, Inr ())"
  by (subst Viewer_close.simps) simp

lemma Viewer_close_registered:
  assumes "distinct (VIEWERS w)" "self \<in> set (VIEWERS w)"
    "server (viewer_objs w ! self) = Some sid" "sid < length (server_objs w)"
    "self < length (viewer_objs w)"
  shows "VIEWERS (fst (Viewer_close e w self wait)) = remove1 self (VIEWERS w)"
    and "self \<notin> set (VIEWERS (fst (Viewer_close e w self wait)))"
    and "server_objs (fst (Viewer_close e w self wait)) = (server_objs w)[sid := Server_stop (server_objs w ! sid)]"
    and "server (viewer_objs (fst (Viewer_close e w self wait)) ! self) = None"
    and "viewer_objs (fst (Viewer_close e w self wait)) = (viewer_objs w)[self := (viewer_objs w ! self)\<lparr>server := None\<rparr>]"
proof -
  have eq: "fst (Viewer_close e w self wait) =
      upd_viewer (upd_server (w\<lparr>VIEWERS := remove1 self (VIEWERS w)\<rparr>) sid Server_stop)
        self (\<lambda>v. v\<lparr>server := None\<rparr>)"
    using assms by (subst Viewer_close_world) (simp add: Viewer_close_nowait)
  show "VIEWERS (fst (Viewer_close e w self wait)) = remove1 self (VIEWERS w)"
    by (simp add: eq VIEWERS_closed)
  then show "self \<notin> set (VIEWERS (fst (Viewer_close e w self wait)))"
    using assms(1) by simp
  show "server_objs (fst (Viewer_close e w self wait)) = (server_objs w)[sid := Server_stop (server_objs w ! sid)]"
    by (simp add: eq upd_viewer_def upd_server_def)
  show "server (viewer_objs (fst (Viewer_close e w self wait)) ! self) = None"
    using assms(5) by (simp add: eq upd_viewer_def upd_server_def)
  show "viewer_objs (fst (Viewer_close e w self wait)) = (viewer_objs w)[self := (viewer_objs w ! self)\<lparr>server := None\<rparr>]"
    by (simp add: eq upd_viewer_def upd_server_def)
qed

text \<open>
  C5. In a world that satisfies the invariant of the registry, \<open>close\<close> on a viewer
  that is not registered changes nothing and returns. On a registered viewer it stops
  the viewer's server and removes the viewer, so that \<open>viewers()\<close> no longer lists
  it, and a second \<open>close\<close> (with any arguments) returns without an exception and
  leaves the world as it is: the server is not stopped again.
\<close>

theorem Viewer_close_idempotent:
  assumes "registry_invariant w"
  shows "(self \<notin> set (viewers w) \<longrightarrow> Viewer_close e w self wait = (w, Inr ())) \<and>
         (self \<in> set (viewers w) \<longrightarrow>
            (\<exists>sid. server (viewer_objs w ! self) = Some sid \<and>
               server_objs (fst (Viewer_close e w self wait)) ! sid
                 = Server_stop (server_objs w ! sid)) \<and>
            self \<notin> set (viewers (fst (Viewer_close e w self wait))) \<and>
            Viewer_close e' (fst (Viewer_close e w self wait)) self wait'
              = (fst (Viewer_close e w self wait), Inr ()))"
proof (intro conjI impI)
  assume "self \<notin> set (viewers w)"
  then show "Viewer_close e w self wait = (w, Inr ())"
    by (simp add: viewers_def Viewer_close_unregistered)
next
  assume "self \<in> set (viewers w)"
  then have mem: "self \<in> set (VIEWERS w)"
    by (simp add: viewers_def)
  from assms have d: "distinct (VIEWERS w)"
    by (simp add: registry_invariant_def)
  from assms mem obtain sid where sid: "server (viewer_objs w ! self) = Some sid"
    "sid < length (server_objs w)" "self < length (viewer_objs w)"
    by (rule registered_has_server)
  note closed = Viewer_close_registered [OF d mem sid, of e wait]
  from sid closed(3)
  show "\<exists>sid. server (viewer_objs w ! self) = Some sid \<and>
          server_objs (fst (Viewer_close e w self wait)) ! sid = Server_stop (server_objs w ! sid)"
    by simp
  from closed(2) show gone: "self \<notin> set (viewers (fst (Viewer_close e w self wait)))"
    by (simp add: viewers_def)
  then show "Viewer_close e' (fst (Viewer_close e w self wait)) self wait'
          = (fst (Viewer_close e w self wait), Inr ())"
    by (simp add: viewers_def Viewer_close_unregistered)
qed

theorem Viewer_close_idempotent_witness:
  "registry_invariant one_viewer \<and> viewers one_viewer = [0] \<and>
   viewers (fst (Viewer_close env0 one_viewer 0 False)) = [] \<and>
   stop_calls (server_objs (fst (Viewer_close env0 one_viewer 0 False)) ! 0) = 1 \<and>
   Viewer_close env0 (fst (Viewer_close env0 one_viewer 0 False)) 0 False
     = (fst (Viewer_close env0 one_viewer 0 False), Inr ()) \<and>
   Viewer_close env0 one_viewer 1 False = (one_viewer, Inr ())"
proof -
  have inv: "registry_invariant one_viewer" and v: "viewers one_viewer = [0]"
    by code_simp+
  from Viewer_close_idempotent [OF inv, of 0 env0 False env0 False] v
  have a: "Viewer_close env0 (fst (Viewer_close env0 one_viewer 0 False)) 0 False
             = (fst (Viewer_close env0 one_viewer 0 False), Inr ())"
    by simp
  from Viewer_close_idempotent [OF inv, of 1 env0 False] v
  have b: "Viewer_close env0 one_viewer 1 False = (one_viewer, Inr ())"
    by simp
  have c: "viewers (fst (Viewer_close env0 one_viewer 0 False)) = []"
    "stop_calls (server_objs (fst (Viewer_close env0 one_viewer 0 False)) ! 0) = 1"
    by code_simp+
  from inv v a b c show ?thesis
    by simp
qed

text \<open>
  C7. When \<open>close(True)\<close> on a registered viewer is interrupted from the keyboard
  while it waits, the call raises \<open>KeyboardInterrupt\<close>, and in the world it leaves the
  viewer is removed from the registry, has no server any more, and its server has been
  stopped and is not running.
\<close>

theorem Viewer_close_interrupted:
  assumes "registry_invariant w" "self \<in> set (viewers w)" "interrupted e"
  shows "\<exists>sid. server (viewer_objs w ! self) = Some sid \<and>
           snd (Viewer_close e w self True) = Inl KeyboardInterrupt \<and>
           self \<notin> set (viewers (fst (Viewer_close e w self True))) \<and>
           server (viewer_objs (fst (Viewer_close e w self True)) ! self) = None \<and>
           server_objs (fst (Viewer_close e w self True)) ! sid
             = Server_stop (server_objs w ! sid) \<and>
           \<not> running (server_objs (fst (Viewer_close e w self True)) ! sid)"
proof -
  from assms(2) have mem: "self \<in> set (VIEWERS w)"
    by (simp add: viewers_def)
  from assms have d: "distinct (VIEWERS w)"
    by (simp add: registry_invariant_def)
  from assms(1) mem obtain sid where sid: "server (viewer_objs w ! self) = Some sid"
    "sid < length (server_objs w)" "self < length (viewer_objs w)"
    by (rule registered_has_server)
  note closed = Viewer_close_registered [OF d mem sid, of e True]
  have "snd (Viewer_close e w self True) = Inl KeyboardInterrupt"
    using mem sid(1) assms(3) by (simp add: Viewer_close_result)
  with sid closed show ?thesis
    by (simp add: viewers_def Server_stop_def)
qed

theorem Viewer_close_interrupted_witness:
  "registry_invariant one_viewer \<and> 0 \<in> set (viewers one_viewer) \<and>
   interrupted env_interrupt \<and>
   snd (Viewer_close env_interrupt one_viewer 0 True) = Inl KeyboardInterrupt \<and>
   0 \<notin> set (viewers (fst (Viewer_close env_interrupt one_viewer 0 True))) \<and>
   \<not> running (server_objs (fst (Viewer_close env_interrupt one_viewer 0 True)) ! 0)"
proof -
  have inv: "registry_invariant one_viewer" and v: "0 \<in> set (viewers one_viewer)"
    and i: "interrupted env_interrupt"
    and s: "server (viewer_objs one_viewer ! 0) = Some 0"
    by code_simp+
  from Viewer_close_interrupted [OF inv v i] s inv v i show ?thesis
    by auto
qed

text \<open>
  C8. The invariant of the registry (no viewer registered twice, every registered
  viewer has a server that was started) is kept by \<open>show\<close> and by \<open>close\<close> on any
  viewer, whatever the arguments and the environment and whether or not the call
  raises; and when \<open>close\<close> is over the viewer is not in the registry.
\<close>

theorem registry_invariant_preserved:
  assumes "registry_invariant w" "self < length (viewer_objs w)"
  shows "registry_invariant (fst (Viewer_show e w self args)) \<and>
         registry_invariant (fst (Viewer_close e w self wait)) \<and>
         self \<notin> set (viewers (fst (Viewer_close e w self wait)))"
proof (intro conjI)
  show "registry_invariant (fst (Viewer_show e w self args))"
    using assms by (rule registry_invariant_Viewer_show)
  show "registry_invariant (fst (Viewer_close e w self wait))"
    using assms(1) by (rule registry_invariant_Viewer_close)
  show "self \<notin> set (viewers (fst (Viewer_close e w self wait)))"
  proof (cases "self \<in> set (VIEWERS w)")
    case True
    from assms have d: "distinct (VIEWERS w)"
      by (simp add: registry_invariant_def)
    from assms(1) True obtain sid where sid: "server (viewer_objs w ! self) = Some sid"
      "sid < length (server_objs w)" "self < length (viewer_objs w)"
      by (rule registered_has_server)
    from Viewer_close_registered(2) [OF d True sid] show ?thesis
      by (simp add: viewers_def)
  next
    case False
    then show ?thesis
      by (simp add: viewers_def Viewer_close_unregistered)
  qed
qed

theorem registry_invariant_preserved_witness:
  "registry_invariant one_viewer \<and> 0 < length (viewer_objs one_viewer) \<and>
   registry_invariant (fst (Viewer_show env0 one_viewer 0 args0)) \<and>
   registry_invariant (fst (Viewer_close env0 one_viewer 0 False)) \<and>
   0 \<notin> set (viewers (fst (Viewer_close env0 one_viewer 0 False)))"
proof -
  have inv: "registry_invariant one_viewer" and l: "0 < length (viewer_objs one_viewer)"
    by code_simp+
  from registry_invariant_preserved [OF inv l, of env0 args0 False] inv l show ?thesis
    by simp
qed

text \<open>
  C9. The property \<open>port\<close> is \<open>None\<close> exactly when the viewer has no server, and is
  the port of the server otherwise; \<open>running\<close> is false when the viewer has no server
  and is the server's \<open>running\<close> otherwise. A viewer just created has no port, and
  neither has a registered viewer after \<open>close\<close>.
\<close>

theorem Viewer_port_None_iff:
  "(Viewer_port w self = None \<longleftrightarrow> server (viewer_objs w ! self) = None) \<and>
   (\<forall>sid. server (viewer_objs w ! self) = Some sid
      \<longrightarrow> Viewer_port w self = Some (server_port (server_objs w ! sid))
          \<and> Viewer_running w self = running (server_objs w ! sid)) \<and>
   (server (viewer_objs w ! self) = None \<longrightarrow> \<not> Viewer_running w self) \<and>
   Viewer_port (w\<lparr>viewer_objs := viewer_objs w @ [Viewer_init h p]\<rparr>) (length (viewer_objs w))
     = None \<and>
   (registry_invariant w \<and> self \<in> set (viewers w)
      \<longrightarrow> Viewer_port (fst (Viewer_close e w self wait)) self = None
          \<and> \<not> Viewer_running (fst (Viewer_close e w self wait)) self)"
proof (intro conjI allI impI)
  show "Viewer_port w self = None \<longleftrightarrow> server (viewer_objs w ! self) = None"
    by (simp add: Viewer_port_def split: option.splits)
  show "Viewer_port (w\<lparr>viewer_objs := viewer_objs w @ [Viewer_init h p]\<rparr>) (length (viewer_objs w)) = None"
    by (simp add: Viewer_port_def Viewer_init_def)
next
  fix sid assume "server (viewer_objs w ! self) = Some sid"
  then show "Viewer_port w self = Some (server_port (server_objs w ! sid))"
    and "Viewer_running w self = running (server_objs w ! sid)"
    by (simp_all add: Viewer_port_def Viewer_running_def)
next
  assume "server (viewer_objs w ! self) = None"
  then show "\<not> Viewer_running w self"
    by (simp add: Viewer_running_def)
next
  assume a: "registry_invariant w \<and> self \<in> set (viewers w)"
  then have mem: "self \<in> set (VIEWERS w)" and d: "distinct (VIEWERS w)"
    by (simp_all add: viewers_def registry_invariant_def)
  from a mem obtain sid where sid: "server (viewer_objs w ! self) = Some sid"
    "sid < length (server_objs w)" "self < length (viewer_objs w)"
    by (blast elim: registered_has_server)
  from Viewer_close_registered(4) [OF d mem sid, of e wait]
  show "Viewer_port (fst (Viewer_close e w self wait)) self = None"
    and "\<not> Viewer_running (fst (Viewer_close e w self wait)) self"
    by (simp_all add: Viewer_port_def Viewer_running_def)
qed

theorem Viewer_port_None_iff_witness:
  "registry_invariant one_viewer \<and> 0 \<in> set (viewers one_viewer) \<and>
   server (viewer_objs one_viewer ! 0) = Some 0 \<and>
   Viewer_port one_viewer 0 = Some 5001 \<and> Viewer_running one_viewer 0 \<and>
   Viewer_port (fst (Viewer_close env0 one_viewer 0 False)) 0 = None \<and>
   \<not> Viewer_running (fst (Viewer_close env0 one_viewer 0 False)) 0"
proof -
  have inv: "registry_invariant one_viewer" and v: "0 \<in> set (viewers one_viewer)"
    and s: "server (viewer_objs one_viewer ! 0) = Some 0"
    and p: "server_port (server_objs one_viewer ! 0) = 5001"
    and r: "running (server_objs one_viewer ! 0)"
    by code_simp+
  from Viewer_port_None_iff [of one_viewer 0 "''127.0.0.1''" Auto env0 False] inv v s p r
  show ?thesis
    by simp
qed

lemma reuse_loop_no_match:
  "list_all (\<lambda>x. Viewer_port w x \<noteq> Some p) vs \<Longrightarrow>
   reuse_loop w p vs cur = (if vs = [] then cur else Some (last vs))"
  by (induction vs arbitrary: cur) auto

lemma reuse_loop_member:
  "reuse_loop w p vs cur = Some v \<Longrightarrow> v \<in> set vs \<or> cur = Some v"
  by (induction vs arbitrary: cur) (auto split: if_splits)

lemma reuse_loop_match:
  "\<not> list_all (\<lambda>x. Viewer_port w x \<noteq> Some p) vs \<Longrightarrow>
   \<exists>v \<in> set vs. Viewer_port w v = Some p \<and> reuse_loop w p vs cur = Some v"
  by (induction vs arbitrary: cur) auto

lemma close_loop_no_match:
  "list_all (\<lambda>x. Viewer_port w x \<noteq> Some p) vs \<Longrightarrow>
   close_loop e w p vs = (w, Inl ViewerNotFoundError)"
  by (induction vs) auto

lemma close_loop_match:
  "\<not> list_all (\<lambda>x. Viewer_port w x \<noteq> Some p) vs \<Longrightarrow>
   \<exists>v \<in> set vs. Viewer_port w v = Some p \<and> close_loop e w p vs = Viewer_close e w v False"
  by (induction vs) auto

lemma remove1_last: "distinct xs \<Longrightarrow> xs \<noteq> [] \<Longrightarrow> remove1 (last xs) xs = butlast xs"
  by (induction xs) (auto simp: remove1_idem)

lemma registry_invariant_spotlight_close:
  assumes "registry_invariant w"
  shows "registry_invariant (fst (spotlight_close e w port))"
proof (cases port)
  case Last
  with assms show ?thesis
    by (simp add: spotlight_close_def registry_invariant_Viewer_close)
next
  case (ClosePort p)
  show ?thesis
  proof (cases "list_all (\<lambda>x. Viewer_port w x \<noteq> Some p) (VIEWERS w)")
    case True
    with assms ClosePort show ?thesis
      by (simp add: spotlight_close_def close_loop_no_match)
  next
    case False
    from close_loop_match [OF False, of e] assms ClosePort show ?thesis
      by (auto simp: spotlight_close_def registry_invariant_Viewer_close)
  qed
qed

lemma registry_invariant_new_viewer:
  assumes "registry_invariant w"
  shows "registry_invariant (w\<lparr>viewer_objs := viewer_objs w @ [v]\<rparr>)"
  using assms unfolding registry_invariant_iff
  by (auto simp: nth_append)

lemma registry_invariant_spotlight_show:
  assumes "registry_invariant w"
  shows "registry_invariant (fst (spotlight_show e w h port args))"
proof -
  define found where "found = (case port of Auto \<Rightarrow> None | Port p \<Rightarrow> reuse_loop w p (VIEWERS w) None)"
  show ?thesis
  proof (cases found)
    case None
    have "registry_invariant (fst (Viewer_show e (w\<lparr>viewer_objs := viewer_objs w @ [Viewer_init h port]\<rparr>)
             (length (viewer_objs w)) args))"
      by (rule registry_invariant_Viewer_show)
         (simp_all add: assms registry_invariant_new_viewer)
    with None show ?thesis
      by (cases "Viewer_show e (w\<lparr>viewer_objs := viewer_objs w @ [Viewer_init h port]\<rparr>)
             (length (viewer_objs w)) args")
         (simp add: spotlight_show_def found_def [symmetric] Let_def split: sum.splits)
  next
    case (Some v)
    then have "v \<in> set (VIEWERS w)"
      by (auto simp: found_def split: port_arg.splits dest: reuse_loop_member)
    with assms have "v < length (viewer_objs w)"
      unfolding registry_invariant_iff by blast
    with assms have "registry_invariant (fst (Viewer_show e w v args))"
      by (rule registry_invariant_Viewer_show)
    with Some show ?thesis
      by (cases "Viewer_show e w v args")
         (simp add: spotlight_show_def found_def [symmetric] Let_def split: sum.splits)
  qed
qed

lemma spotlight_show_reuses_last:
  assumes "VIEWERS w \<noteq> []" "list_all (\<lambda>x. Viewer_port w x \<noteq> Some p) (VIEWERS w)"
  shows "spotlight_show e w h (Port p) args =
           (case Viewer_show e w (last (VIEWERS w)) args of
              (w2, Inl err) \<Rightarrow> (w2, Inl err)
            | (w2, Inr _) \<Rightarrow> (w2, Inr (last (VIEWERS w))))"
  using assms by (simp add: spotlight_show_def reuse_loop_no_match Let_def)

text \<open>
  C6, as amended. \<open>close("last")\<close> raises \<open>ViewerNotFoundError\<close> when the registry
  is empty, and otherwise closes the viewer at the end of the registry, the one
  registered last, which leaves the registry without its last entry. \<open>close(port)\<close>
  raises \<open>ViewerNotFoundError\<close> when no registered viewer has that port, and otherwise
  closes a registered viewer with that port and removes it.
\<close>

theorem spotlight_close_registered:
  assumes "registry_invariant w"
  shows "(viewers w = [] \<longrightarrow> spotlight_close e w Last = (w, Inl ViewerNotFoundError)) \<and>
         (viewers w \<noteq> [] \<longrightarrow>
            spotlight_close e w Last = Viewer_close e w (last (viewers w)) False \<and>
            snd (spotlight_close e w Last) = Inr () \<and>
            viewers (fst (spotlight_close e w Last)) = butlast (viewers w)) \<and>
         (list_all (\<lambda>v. Viewer_port w v \<noteq> Some p) (viewers w) \<longrightarrow>
            spotlight_close e w (ClosePort p) = (w, Inl ViewerNotFoundError)) \<and>
         (\<not> list_all (\<lambda>v. Viewer_port w v \<noteq> Some p) (viewers w) \<longrightarrow>
            (\<exists>v \<in> set (viewers w). Viewer_port w v = Some p \<and>
               spotlight_close e w (ClosePort p) = Viewer_close e w v False \<and>
               snd (spotlight_close e w (ClosePort p)) = Inr () \<and>
               viewers (fst (spotlight_close e w (ClosePort p))) = remove1 v (viewers w)))"
proof (intro conjI impI)
  from assms have d: "distinct (VIEWERS w)"
    by (simp add: registry_invariant_def)
  show "spotlight_close e w Last = (w, Inl ViewerNotFoundError)" if "viewers w = []"
    using that by (simp add: spotlight_close_def viewers_def)
  show "spotlight_close e w (ClosePort p) = (w, Inl ViewerNotFoundError)"
    if "list_all (\<lambda>v. Viewer_port w v \<noteq> Some p) (viewers w)"
    using that by (simp add: spotlight_close_def viewers_def close_loop_no_match)
  {
    assume ne: "viewers w \<noteq> []"
    then have mem: "last (VIEWERS w) \<in> set (VIEWERS w)"
      by (simp add: viewers_def)
    from assms mem obtain sid where sid: "server (viewer_objs w ! last (VIEWERS w)) = Some sid"
      "sid < length (server_objs w)" "last (VIEWERS w) < length (viewer_objs w)"
      by (rule registered_has_server)
    show eq: "spotlight_close e w Last = Viewer_close e w (last (viewers w)) False"
      using ne by (simp add: spotlight_close_def viewers_def)
    show "snd (spotlight_close e w Last) = Inr ()"
      by (simp add: eq Viewer_close_result)
    show "viewers (fst (spotlight_close e w Last)) = butlast (viewers w)"
      using ne d Viewer_close_registered(1) [OF d mem sid, of e False]
      by (simp add: eq viewers_def remove1_last)
  }
  {
    assume "\<not> list_all (\<lambda>v. Viewer_port w v \<noteq> Some p) (viewers w)"
    then obtain v where v: "v \<in> set (VIEWERS w)" "Viewer_port w v = Some p"
      "close_loop e w p (VIEWERS w) = Viewer_close e w v False"
      using close_loop_match [of w p "VIEWERS w" e] by (auto simp: viewers_def)
    from assms v(1) obtain sid where sid: "server (viewer_objs w ! v) = Some sid"
      "sid < length (server_objs w)" "v < length (viewer_objs w)"
      by (rule registered_has_server)
    have eq: "spotlight_close e w (ClosePort p) = Viewer_close e w v False"
      by (simp add: spotlight_close_def v(3))
    have "snd (spotlight_close e w (ClosePort p)) = Inr ()"
      by (simp add: eq Viewer_close_result)
    moreover have "viewers (fst (spotlight_close e w (ClosePort p))) = remove1 v (viewers w)"
      using Viewer_close_registered(1) [OF d v(1) sid, of e False] by (simp add: eq viewers_def)
    ultimately show "\<exists>v \<in> set (viewers w). Viewer_port w v = Some p \<and>
               spotlight_close e w (ClosePort p) = Viewer_close e w v False \<and>
               snd (spotlight_close e w (ClosePort p)) = Inr () \<and>
               viewers (fst (spotlight_close e w (ClosePort p))) = remove1 v (viewers w)"
      using v eq by (auto simp: viewers_def)
  }
qed

theorem spotlight_close_registered_witness:
  "registry_invariant two_viewers \<and> viewers two_viewers = [0, 1] \<and>
   snd (spotlight_close env0 two_viewers Last) = Inr () \<and>
   viewers (fst (spotlight_close env0 two_viewers Last)) = [0] \<and>
   spotlight_close env0 two_viewers (ClosePort 5001) = (two_viewers, Inl ViewerNotFoundError) \<and>
   viewers (fst (spotlight_close env0 two_viewers (ClosePort 49152))) = [1] \<and>
   spotlight_close env0 empty_world Last = (empty_world, Inl ViewerNotFoundError) \<and>
   snd (spotlight_close env0 (fst (spotlight_close env0 one_viewer Last)) Last)
     = Inl ViewerNotFoundError"
proof -
  have inv: "registry_invariant two_viewers" and v: "viewers two_viewers = [0, 1]"
    and p: "Viewer_port two_viewers 0 = Some 49152" "Viewer_port two_viewers 1 = Some 49153"
    by code_simp+
  have inv0: "registry_invariant empty_world" and v0: "viewers empty_world = []"
    by code_simp+
  have inv1: "registry_invariant one_viewer" and v1: "viewers one_viewer = [0]"
    by code_simp+
  have ne: "viewers two_viewers \<noteq> []"
    and no: "list_all (\<lambda>v. Viewer_port two_viewers v \<noteq> Some 5001) (viewers two_viewers)"
    and yes: "\<not> list_all (\<lambda>v. Viewer_port two_viewers v \<noteq> Some 49152) (viewers two_viewers)"
    using v p by simp_all
  note t = spotlight_close_registered [OF inv, of env0 5001]
  from t ne have "snd (spotlight_close env0 two_viewers Last) = Inr () \<and>
      viewers (fst (spotlight_close env0 two_viewers Last)) = butlast (viewers two_viewers)"
    by blast
  with v have a: "snd (spotlight_close env0 two_viewers Last) = Inr ()"
    "viewers (fst (spotlight_close env0 two_viewers Last)) = [0]"
    by simp_all
  from t no
  have a': "spotlight_close env0 two_viewers (ClosePort 5001)
              = (two_viewers, Inl ViewerNotFoundError)"
    by blast
  from spotlight_close_registered [OF inv, of env0 49152] yes
  obtain x where x: "x \<in> set (viewers two_viewers)" "Viewer_port two_viewers x = Some 49152"
    "viewers (fst (spotlight_close env0 two_viewers (ClosePort 49152)))
       = remove1 x (viewers two_viewers)"
    by blast
  from x(1,2) v p have "x = 0"
    by auto
  with x(3) v
  have b: "viewers (fst (spotlight_close env0 two_viewers (ClosePort 49152))) = [1]"
    by simp
  from spotlight_close_registered [OF inv0, of env0 0] v0
  have c: "spotlight_close env0 empty_world Last = (empty_world, Inl ViewerNotFoundError)"
    by blast
  have ne1: "viewers one_viewer \<noteq> []"
    using v1 by simp
  from spotlight_close_registered [OF inv1, of env0 0] ne1
  have "viewers (fst (spotlight_close env0 one_viewer Last)) = butlast (viewers one_viewer)"
    by blast
  with v1 have e: "viewers (fst (spotlight_close env0 one_viewer Last)) = []"
    by simp
  from spotlight_close_registered
         [OF registry_invariant_spotlight_close [OF inv1, of env0 Last], of env0 0] e
  have "spotlight_close env0 (fst (spotlight_close env0 one_viewer Last)) Last
          = (fst (spotlight_close env0 one_viewer Last), Inl ViewerNotFoundError)"
    by blast
  then have d: "snd (spotlight_close env0 (fst (spotlight_close env0 one_viewer Last)) Last)
             = Inl ViewerNotFoundError"
    by simp
  from inv v a a' b c d show ?thesis
    by simp
qed

text \<open>
  C6, as stated, fails. Two viewers are opened, the first is closed and shown again:
  it is registered anew, behind the second. The viewer created most recently among
  the open ones is the second, and \<open>close("last")\<close> closes the first. The same
  happens when two viewers are made with the constructor and the second is shown
  first.
\<close>

theorem spotlight_close_last_counterexample:
  "viewers reshown = [1, 0] \<and> most_recently_created reshown = 1 \<and>
   viewers (fst (spotlight_close env0 reshown Last)) = [1] \<and>
   viewers shown_in_reverse = [1, 0] \<and> most_recently_created shown_in_reverse = 1 \<and>
   viewers (fst (spotlight_close env0 shown_in_reverse Last)) = [1]"
  by code_simp

text \<open>
  C3. With an explicit port that no registered viewer has, \<open>show\<close> creates a viewer
  only when the registry is empty. Otherwise the loop variable still holds the viewer
  registered last, and \<open>show\<close> is invoked on that viewer: here the viewer on port
  5001 is returned for port 5002, no viewer is created and nothing listens on 5002.
\<close>

theorem spotlight_show_other_port:
  "viewers one_viewer = [0] \<and> Viewer_port one_viewer 0 = Some 5001 \<and>
   spotlight_show env0 one_viewer ''127.0.0.1'' (Port 5002) args0 = (one_viewer, Inr 0) \<and>
   length (viewer_objs (fst (spotlight_show env0 one_viewer ''127.0.0.1'' (Port 5002) args0)))
     = length (viewer_objs one_viewer)"
  by code_simp

section \<open>Properties of the application object\<close>

lemma cancel_not_pending:
  "\<not> (task_name (cancel name t) = name \<and> task_state (cancel name t) = Pending)"
  by (simp add: cancel_def)

lemma no_pending_after_cancel:
  "filter (\<lambda>k. task_name k = name \<and> task_state k = Pending) (map (cancel name) ts) = []"
  by (induction ts) (simp_all add: cancel_not_pending)

lemma broadcast_fields:
  "issues (broadcast a m) = issues a"
  "app_data_source (broadcast a m) = app_data_source a"
  "task_manager (broadcast a m) = task_manager a"
  "callback_errors (broadcast a m) = callback_errors a"
  "websocket_manager (broadcast a m) = map_option (\<lambda>sent. sent @ [m]) (websocket_manager a)"
  by (simp_all add: broadcast_def split: option.splits)

lemma update_issues_None:
  "app_data_source a = None \<Longrightarrow> update_issues a = broadcast (a\<lparr>issues := []\<rparr>) IssuesUpdatedMessage"
  by (simp add: update_issues_def)

lemma update_issues_Some:
  "app_data_source a = Some t \<Longrightarrow>
   update_issues a =
     (broadcast (a\<lparr>issues := []\<rparr>) IssuesUpdatedMessage)
       \<lparr>task_manager := create_task (task_manager a) (t, ds_dtype t) ''update_issues''\<rparr>"
  by (simp add: update_issues_def Let_def broadcast_fields)

text \<open>
  C4, as amended. Assigning a data source empties the issues and, when the application
  has a websocket manager, broadcasts one \<open>IssuesUpdatedMessage\<close> without data;
  without a manager nothing is broadcast. With \<open>None\<close> the tasks are left as they
  are; with a data source the pending tasks named \<open>update_issues\<close> are cancelled and
  one task of that name is created with the data source and its \<open>dtype\<close>, which is
  then the only pending task of that name.
\<close>

theorem set_data_source_clears_and_schedules:
  "issues (set_data_source a new) = [] \<and>
   app_data_source (set_data_source a new) = new \<and>
   websocket_manager (set_data_source a new)
     = map_option (\<lambda>sent. sent @ [IssuesUpdatedMessage]) (websocket_manager a) \<and>
   msg_data IssuesUpdatedMessage = None \<and>
   (new = None \<longrightarrow> task_manager (set_data_source a new) = task_manager a) \<and>
   (\<forall>t. new = Some t \<longrightarrow>
      task_manager (set_data_source a new)
        = map (cancel ''update_issues'') (task_manager a)
          @ [\<lparr>task_name = ''update_issues'', task_args = (t, ds_dtype t),
               task_state = Pending\<rparr>] \<and>
      filter (\<lambda>k. task_name k = ''update_issues'' \<and> task_state k = Pending)
          (task_manager (set_data_source a new))
        = [\<lparr>task_name = ''update_issues'', task_args = (t, ds_dtype t),
             task_state = Pending\<rparr>])"
proof (cases new)
  case None
  then show ?thesis
    by (simp add: set_data_source_def update_issues_None broadcast_fields
        IssuesUpdatedMessage_def)
next
  case (Some t)
  then show ?thesis
    by (simp add: set_data_source_def update_issues_Some broadcast_fields
        IssuesUpdatedMessage_def create_task_def no_pending_after_cancel)
qed

theorem set_data_source_clears_and_schedules_witness:
  "websocket_manager (set_data_source connected_app (Some frame1)) = Some [IssuesUpdatedMessage] \<and>
   task_manager (set_data_source connected_app (Some frame1))
     = [\<lparr>task_name = ''update_issues'', task_args = (frame1, None), task_state = Pending\<rparr>] \<and>
   task_manager (set_data_source (set_data_source connected_app (Some frame1)) None)
     = task_manager (set_data_source connected_app (Some frame1))"
  using set_data_source_clears_and_schedules [of connected_app "Some frame1"]
    set_data_source_clears_and_schedules [of "set_data_source connected_app (Some frame1)" None]
  by (simp add: connected_app_def SpotlightApp_init_def frame1_def cancel_def)

text \<open>
  C4, as stated, fails: a new application has no websocket manager, and assigning a
  data source broadcasts nothing.
\<close>

theorem set_data_source_counterexample:
  "\<not> (\<exists>sent. websocket_manager (set_data_source SpotlightApp_init (Some frame1))
                 = Some (sent @ [IssuesUpdatedMessage]))"
  by (simp add: set_data_source_def update_issues_def Let_def broadcast_def SpotlightApp_init_def)

lemma set_task_state_fields:
  "issues (set_task_state a i st) = issues a"
  "websocket_manager (set_task_state a i st) = websocket_manager a"
  "callback_errors (set_task_state a i st) = callback_errors a"
  "app_data_source (set_task_state a i st) = app_data_source a"
  by (simp_all add: set_task_state_def)

lemma unfinished_is_last:
  assumes "list_all is_done (butlast ts)" "i < length ts" "\<not> is_done (ts ! i)"
  shows "Suc i = length ts"
proof (rule ccontr)
  assume "Suc i \<noteq> length ts"
  with assms(2) have "i < length (butlast ts)"
    by simp
  with assms(1) have "is_done (butlast ts ! i)"
    by (simp add: list_all_length)
  with \<open>i < length (butlast ts)\<close> assms(3) show False
    by (simp add: nth_butlast)
qed

lemma is_done_cancel:
  "task_name t = name \<Longrightarrow> task_state t \<noteq> Running \<Longrightarrow> is_done (cancel name t)"
  by (cases "task_state t") (simp_all add: cancel_def is_done_def)

lemma task_name_cancel [simp]: "task_name (cancel name t) = task_name t"
  by (simp add: cancel_def)

lemma single_flight_no_tasks: "task_manager a = [] \<Longrightarrow> single_flight a"
  by (simp add: single_flight_def)

lemma single_flight_assign:
  assumes "single_flight a" "\<not> executing a"
  shows "single_flight (set_data_source a (Some d))"
proof -
  from assms have "list_all (\<lambda>t. is_done (cancel ''update_issues'' t)) (task_manager a)"
    by (auto simp: single_flight_def executing_def list_all_iff list_ex_iff
        intro: is_done_cancel)
  with assms(1) show ?thesis
    by (simp add: single_flight_def set_data_source_def update_issues_Some broadcast_fields
        create_task_def list_all_iff)
qed

lemma single_flight_clear:
  assumes "single_flight a" "\<not> unfinished a"
  shows "single_flight (set_data_source a None)"
proof -
  from assms(2) have all: "list_all is_done (task_manager a)"
    by (simp add: unfinished_def list_all_iff list_ex_iff)
  then have "list_all is_done (butlast (task_manager a))"
    by (auto simp: list_all_iff dest: in_set_butlastD)
  moreover have "task_manager a = [] \<or> is_done (last (task_manager a))"
  proof (cases "task_manager a = []")
    case False
    then have "last (task_manager a) \<in> set (task_manager a)"
      by simp
    with all show ?thesis
      by (simp add: list_all_iff)
  qed simp
  ultimately show ?thesis
    using assms(1)
    by (simp add: single_flight_def set_data_source_def update_issues_None broadcast_fields)
qed

lemma single_flight_begin:
  assumes "single_flight a"
  shows "single_flight (step find_issues a (Begin i))"
proof (cases "i < length (task_manager a) \<and> task_state (task_manager a ! i) = Pending")
  case False
  with assms show ?thesis
    by auto
next
  case True
  then have nd: "\<not> is_done (task_manager a ! i)"
    by (simp add: is_done_def)
  from assms have b: "list_all is_done (butlast (task_manager a))"
    by (simp add: single_flight_def)
  from unfinished_is_last [OF b _ nd] True have i: "Suc i = length (task_manager a)"
    by simp
  from i have i': "i = length (task_manager a) - 1" and ne: "task_manager a \<noteq> []"
    by auto
  from ne have l: "last (task_manager a) = task_manager a ! i"
    by (simp add: last_conv_nth i')
  have bl: "butlast ((task_manager a)[i := x]) = butlast (task_manager a)" for x
    by (simp add: butlast_list_update i [symmetric])
  have la: "last ((task_manager a)[i := x]) = x" for x
    using ne by (simp add: last_list_update i [symmetric])
  from assms nd l ne have cur: "issues a = []"
    "app_data_source a = Some (fst (task_args (task_manager a ! i)))"
    "snd (task_args (task_manager a ! i)) = ds_dtype (fst (task_args (task_manager a ! i)))"
    by (auto simp: single_flight_def)
  from assms have names: "list_all (\<lambda>t. task_name t = ''update_issues'') (task_manager a)"
    by (simp add: single_flight_def)
  then have "list_all (\<lambda>t. task_name t = ''update_issues'')
               ((task_manager a)[i := (task_manager a ! i)\<lparr>task_state := Running\<rparr>])"
    using True by (auto simp: list_all_length nth_list_update)
  with True b cur show ?thesis
    by (simp add: single_flight_def set_task_state_def bl la)
qed

lemma single_flight_complete:
  assumes "single_flight a"
  shows "single_flight (step find_issues a (Complete i))"
proof (cases "i < length (task_manager a) \<and> task_state (task_manager a ! i) = Running")
  case False
  with assms show ?thesis
    by auto
next
  case True
  then have nd: "\<not> is_done (task_manager a ! i)"
    by (simp add: is_done_def)
  from assms have b: "list_all is_done (butlast (task_manager a))"
    by (simp add: single_flight_def)
  from unfinished_is_last [OF b _ nd] True have i: "Suc i = length (task_manager a)"
    by simp
  from i have i': "i = length (task_manager a) - 1" and ne: "task_manager a \<noteq> []"
    by auto
  have bl: "butlast ((task_manager a)[i := x]) = butlast (task_manager a)" for x
    by (simp add: butlast_list_update i [symmetric])
  have la: "last ((task_manager a)[i := x]) = x" for x
    using ne by (simp add: last_list_update i [symmetric])
  from assms have names: "list_all (\<lambda>t. task_name t = ''update_issues'') (task_manager a)"
    by (simp add: single_flight_def)
  then have n': "list_all (\<lambda>t. task_name t = ''update_issues'')
               ((task_manager a)[i := (task_manager a ! i)\<lparr>task_state := st\<rparr>])" for st
    using True by (auto simp: list_all_length nth_list_update)
  have tm: "task_manager (step find_issues a (Complete i))
              = (task_manager a)[i := (task_manager a ! i)
                   \<lparr>task_state := Done (run_task find_issues (task_manager a ! i))\<rparr>]"
    using True
    by (cases "run_task find_issues (task_manager a ! i)")
       (simp_all add: Let_def on_issues_ready_def set_task_state_def broadcast_fields)
  show ?thesis
    using b n' by (simp add: single_flight_def tm bl la is_done_def del: step.simps)
qed

lemma single_flight_step:
  "single_flight a \<Longrightarrow> in_order a ev \<Longrightarrow> single_flight (step find_issues a ev)"
proof (cases ev)
  case (SetDataSource d)
  assume "single_flight a" "in_order a ev"
  with SetDataSource show ?thesis
    by (cases d) (simp_all add: single_flight_assign single_flight_clear)
next
  case (Begin i)
  assume "single_flight a"
  with Begin show ?thesis
    by (simp only: single_flight_begin)
next
  case (Complete i)
  assume "single_flight a"
  with Complete show ?thesis
    by (simp only: single_flight_complete)
qed

lemma single_flight_run:
  "single_flight a \<Longrightarrow> orderly find_issues a evs \<Longrightarrow> single_flight (run find_issues a evs)"
  by (induction evs arbitrary: a) (simp_all add: run_def single_flight_step)

lemma completing_task_is_current:
  assumes "single_flight a" "i < length (task_manager a)"
    "task_state (task_manager a ! i) = Running"
  shows "Suc i = length (task_manager a)"
    and "issues a = []"
    and "app_data_source a = Some (fst (task_args (task_manager a ! i)))"
    and "snd (task_args (task_manager a ! i)) = ds_dtype (fst (task_args (task_manager a ! i)))"
proof -
  from assms(3) have nd: "\<not> is_done (task_manager a ! i)"
    by (simp add: is_done_def)
  from assms(1) have b: "list_all is_done (butlast (task_manager a))"
    by (simp add: single_flight_def)
  from unfinished_is_last [OF b assms(2) nd] show i: "Suc i = length (task_manager a)" .
  from i have i': "i = length (task_manager a) - 1" and ne: "task_manager a \<noteq> []"
    by auto
  from ne have l: "last (task_manager a) = task_manager a ! i"
    by (simp add: last_conv_nth i')
  from assms(1) nd l ne show "issues a = []"
    "app_data_source a = Some (fst (task_args (task_manager a ! i)))"
    "snd (task_args (task_manager a ! i)) = ds_dtype (fst (task_args (task_manager a ! i)))"
    by (auto simp: single_flight_def)
qed

lemma step_Complete_returned:
  assumes "i < length (task_manager a)" "task_state (task_manager a ! i) = Running"
    "find_issues (fst (task_args (task_manager a ! i))) (snd (task_args (task_manager a ! i)))
       = Inr found"
  shows "issues (step find_issues a (Complete i)) = found"
    and "websocket_manager (step find_issues a (Complete i))
           = map_option (\<lambda>sent. sent @ [IssuesUpdatedMessage]) (websocket_manager a)"
    and "callback_errors (step find_issues a (Complete i)) = callback_errors a"
  using assms
  by (simp_all add: run_task_def on_issues_ready_def broadcast_fields set_task_state_fields)

lemma step_Complete_raised:
  assumes "i < length (task_manager a)" "task_state (task_manager a ! i) = Running"
    "find_issues (fst (task_args (task_manager a ! i))) (snd (task_args (task_manager a ! i)))
       = Inl err"
  shows "issues (step find_issues a (Complete i)) = issues a"
    and "websocket_manager (step find_issues a (Complete i)) = websocket_manager a"
    and "callback_errors (step find_issues a (Complete i)) = callback_errors a @ [err]"
  using assms
  by (simp_all add: run_task_def on_issues_ready_def broadcast_fields set_task_state_fields)

lemma superseded_pending_is_cancelled:
  assumes "single_flight a" "j < length (task_manager a)"
    "task_state (task_manager a ! j) = Pending"
  shows "task_state (task_manager (set_data_source a (Some d)) ! j) = Done Cancelled"
proof -
  from assms(1,2) have "task_name (task_manager a ! j) = ''update_issues''"
    by (simp add: single_flight_def list_all_length)
  with assms(2,3) show ?thesis
    by (simp add: set_data_source_def update_issues_Some broadcast_fields create_task_def
        nth_append cancel_def)
qed

text \<open>
  C2, as amended. In an orderly run, where every superseded task is cancelled, the
  callback of a cancelled task changes nothing, and a pending task that an assignment
  supersedes is cancelled. A task that completes is the last one, created for the
  current data source, so no superseded task completes, and the issues are empty
  before. If the task returned, the issues become its result and, when the application
  has a websocket manager, one \<open>IssuesUpdatedMessage\<close> is broadcast. If it raised, the
  exception leaves the callback and is recorded, the issues stay empty and nothing is
  broadcast. Runs that are not orderly are left out here.
\<close>

theorem completion_in_orderly_run:
  assumes "task_manager a0 = []" and "orderly find_issues a0 evs"
    and "a = run find_issues a0 evs"
  shows "on_issues_ready a Cancelled = (a, Inr ()) \<and>
    (\<forall>j d. j < length (task_manager a) \<and> task_state (task_manager a ! j) = Pending
       \<longrightarrow> task_state (task_manager (set_data_source a (Some d)) ! j) = Done Cancelled) \<and>
    (\<forall>i. i < length (task_manager a) \<and> task_state (task_manager a ! i) = Running
       \<longrightarrow> Suc i = length (task_manager a) \<and>
           app_data_source a = Some (fst (task_args (task_manager a ! i))) \<and>
           issues a = [] \<and>
           (\<forall>found.
              find_issues (fst (task_args (task_manager a ! i)))
                  (snd (task_args (task_manager a ! i))) = Inr found
              \<longrightarrow> issues (step find_issues a (Complete i)) = found \<and>
                  websocket_manager (step find_issues a (Complete i))
                    = map_option (\<lambda>sent. sent @ [IssuesUpdatedMessage])
                        (websocket_manager a) \<and>
                  callback_errors (step find_issues a (Complete i)) = callback_errors a) \<and>
           (\<forall>err.
              find_issues (fst (task_args (task_manager a ! i)))
                  (snd (task_args (task_manager a ! i))) = Inl err
              \<longrightarrow> issues (step find_issues a (Complete i)) = [] \<and>
                  websocket_manager (step find_issues a (Complete i)) = websocket_manager a \<and>
                  callback_errors (step find_issues a (Complete i))
                    = callback_errors a @ [err]))"
proof -
  from assms have sf: "single_flight a"
    by (simp add: single_flight_run single_flight_no_tasks)
  have 1: "on_issues_ready a Cancelled = (a, Inr ())"
    by (simp add: on_issues_ready_def)
  have 2: "task_state (task_manager (set_data_source a (Some d)) ! j) = Done Cancelled"
    if "j < length (task_manager a) \<and> task_state (task_manager a ! j) = Pending" for j d
    using sf that by (simp add: superseded_pending_is_cancelled)
  have 3: "Suc i = length (task_manager a) \<and>
           app_data_source a = Some (fst (task_args (task_manager a ! i))) \<and>
           issues a = [] \<and>
           (\<forall>found.
              find_issues (fst (task_args (task_manager a ! i)))
                  (snd (task_args (task_manager a ! i))) = Inr found
              \<longrightarrow> issues (step find_issues a (Complete i)) = found \<and>
                  websocket_manager (step find_issues a (Complete i))
                    = map_option (\<lambda>sent. sent @ [IssuesUpdatedMessage])
                        (websocket_manager a) \<and>
                  callback_errors (step find_issues a (Complete i)) = callback_errors a) \<and>
           (\<forall>err.
              find_issues (fst (task_args (task_manager a ! i)))
                  (snd (task_args (task_manager a ! i))) = Inl err
              \<longrightarrow> issues (step find_issues a (Complete i)) = [] \<and>
                  websocket_manager (step find_issues a (Complete i)) = websocket_manager a \<and>
                  callback_errors (step find_issues a (Complete i))
                    = callback_errors a @ [err])"
    if r: "i < length (task_manager a) \<and> task_state (task_manager a ! i) = Running" for i
  proof -
    from r have l: "i < length (task_manager a)"
      and s: "task_state (task_manager a ! i) = Running"
      by simp_all
    note cur = completing_task_is_current [OF sf l s]
    note ret = step_Complete_returned [OF l s]
    note rai = step_Complete_raised [OF l s]
    from cur(1-3) ret rai show ?thesis
      by (simp del: step.simps)
  qed
  from 1 2 3 show ?thesis
    by blast
qed

theorem completion_in_orderly_run_witness:
  "task_manager connected_app = [] \<and>
   orderly find_issues0 connected_app
     [SetDataSource (Some frame1), SetDataSource (Some file1), Begin 1] \<and>
   task_state (task_manager (run find_issues0 connected_app
     [SetDataSource (Some frame1), SetDataSource (Some file1), Begin 1]) ! 0) = Done Cancelled \<and>
   task_state (task_manager (run find_issues0 connected_app
     [SetDataSource (Some frame1), SetDataSource (Some file1), Begin 1]) ! 1) = Running \<and>
   issues (run find_issues0 connected_app
     [SetDataSource (Some frame1), SetDataSource (Some file1), Begin 1, Complete 1]) = [] \<and>
   callback_errors (run find_issues0 connected_app
     [SetDataSource (Some frame1), SetDataSource (Some file1), Begin 1, Complete 1])
     = [AnalysisError] \<and>
   websocket_manager (run find_issues0 connected_app
     [SetDataSource (Some frame1), SetDataSource (Some file1), Begin 1, Complete 1])
     = Some [IssuesUpdatedMessage, IssuesUpdatedMessage]"
proof -
  define a where "a = run find_issues0 connected_app
     [SetDataSource (Some frame1), SetDataSource (Some file1), Begin 1]"
  have h: "task_manager connected_app = []"
    "orderly find_issues0 connected_app
       [SetDataSource (Some frame1), SetDataSource (Some file1), Begin 1]"
    by code_simp+
  have f: "1 < length (task_manager a) \<and> task_state (task_manager a ! 1) = Running"
    "find_issues0 (fst (task_args (task_manager a ! 1))) (snd (task_args (task_manager a ! 1)))
       = Inl AnalysisError"
    "task_state (task_manager a ! 0) = Done Cancelled"
    "callback_errors a = []"
    "websocket_manager a = Some [IssuesUpdatedMessage, IssuesUpdatedMessage]"
    unfolding a_def by code_simp+
  have r: "run find_issues0 connected_app
       [SetDataSource (Some frame1), SetDataSource (Some file1), Begin 1, Complete 1]
     = step find_issues0 a (Complete 1)"
    by (simp add: a_def run_def del: step.simps)
  from completion_in_orderly_run [OF h a_def] f(1,2)
  have res: "issues (step find_issues0 a (Complete 1)) = [] \<and>
        websocket_manager (step find_issues0 a (Complete 1)) = websocket_manager a \<and>
        callback_errors (step find_issues0 a (Complete 1)) = callback_errors a @ [AnalysisError]"
    by blast
  have d: "task_state (task_manager (run find_issues0 connected_app
       [SetDataSource (Some frame1), SetDataSource (Some file1), Begin 1]) ! 0) = Done Cancelled"
    "task_state (task_manager (run find_issues0 connected_app
       [SetDataSource (Some frame1), SetDataSource (Some file1), Begin 1]) ! 1) = Running"
    by code_simp+
  from res have g1: "issues (run find_issues0 connected_app
       [SetDataSource (Some frame1), SetDataSource (Some file1), Begin 1, Complete 1]) = []"
    by (simp only: r)
  from res f(4) have g2: "callback_errors (run find_issues0 connected_app
       [SetDataSource (Some frame1), SetDataSource (Some file1), Begin 1, Complete 1])
       = [AnalysisError]"
    by (simp only: r append_Nil)
  from res f(5) have g3: "websocket_manager (run find_issues0 connected_app
       [SetDataSource (Some frame1), SetDataSource (Some file1), Begin 1, Complete 1])
       = Some [IssuesUpdatedMessage, IssuesUpdatedMessage]"
    by (simp only: r)
  from h d g1 g2 g3 show ?thesis
    by (intro conjI)
qed

text \<open>
  C2, as stated, fails: a new application has no websocket manager, and the callback
  of a task that returned sets the issues and broadcasts nothing.
\<close>

theorem on_issues_ready_counterexample:
  "issues (fst (on_issues_ready SpotlightApp_init (Returned [''issue'']))) = [''issue''] \<and>
   \<not> (\<exists>sent. websocket_manager (fst (on_issues_ready SpotlightApp_init (Returned [''issue''])))
                 = Some (sent @ [IssuesUpdatedMessage]))"
  by (simp add: on_issues_ready_def broadcast_def SpotlightApp_init_def)

text \<open>
  C1. The first data source is assigned and its task begins to execute; the second
  data source is assigned, which cannot cancel the executing task; the first task
  completes. Its callback sets the issues to the result for the first data source,
  while the data source is the second and the second task is still pending. When the
  second task completes before the first, the result for the first data source
  overwrites the result for the second.
\<close>

theorem stale_issues_after_reassignment:
  "issues (run find_issues0 SpotlightApp_init
       [SetDataSource (Some frame1), Begin 0, SetDataSource (Some frame2), Complete 0])
     = [''issue of frame 1''] \<and>
   app_data_source (run find_issues0 SpotlightApp_init
       [SetDataSource (Some frame1), Begin 0, SetDataSource (Some frame2), Complete 0])
     = Some frame2 \<and>
   map task_state (task_manager (run find_issues0 SpotlightApp_init
       [SetDataSource (Some frame1), Begin 0, SetDataSource (Some frame2), Complete 0]))
     = [Done (Returned [''issue of frame 1'']), Pending] \<and>
   issues (run find_issues0 SpotlightApp_init
       [SetDataSource (Some frame1), Begin 0, SetDataSource (Some frame2), Begin 1,
        Complete 1, Complete 0])
     = [''issue of frame 1''] \<and>
   find_issues0 frame2 None = Inr [''issue of another frame'']"
  by code_simp

end
